theory Spec2Isabelle
  imports Main "HOL-Library.Word"
begin

section \<open>Data model\<close>

text \<open>
  The overlap engine of \<^verbatim>\<open>transposon/overlap.py\<close>. Python exceptions are values of
  \<open>error\<close>; a function that may raise returns \<open>error + 'a\<close> with \<open>Inl\<close> for the
  exception.

  Coordinates are unsigned 32-bit integers: the importers cast the start and stop
  columns to \<^verbatim>\<open>uint32\<close>, and the arithmetic of two such arrays wraps around modulo
  \<open>2 ^ 32\<close>. A window is a Python integer.
\<close>

datatype error = ValueError | KeyError | TypeError | IndexError | OSError

type_synonym uint32 = "32 word"

record GeneDatum =
  start :: uint32
  stop :: uint32

record TransposonData =
  starts :: "uint32 list"
  stops :: "uint32 list"
  lengths :: "uint32 list"

type_synonym GeneData = "(string \<times> GeneDatum) list"

text \<open>
  Modelled from the spec: the window helpers of \<^verbatim>\<open>GeneDatum\<close> (class of
  \<^verbatim>\<open>transposon/data.py\<close>, absent from the sources). The spec gives
  \<^verbatim>\<open>win_length(window)\<close> as the effective window size, truncated to
  \<^verbatim>\<open>gene.start - 0\<close> when the naive window start would be negative,
  \<^verbatim>\<open>w0 = max(0, gene.start - effective_window)\<close>, \<^verbatim>\<open>left_window_stop = start - 1\<close>,
  \<^verbatim>\<open>right_window_start = stop + 1\<close> and a right window stop of the gene's stop plus the
  window it is given. The helpers compute with the values of the coordinates, as the
  spec writes them.
\<close>

definition win_length :: "GeneDatum \<Rightarrow> int \<Rightarrow> int" where
  "win_length gene_datum window =
     (if uint (start gene_datum) - window < 0 then uint (start gene_datum) - 0 else window)"

definition left_win_start :: "GeneDatum \<Rightarrow> int \<Rightarrow> int" where
  "left_win_start gene_datum w_len = max 0 (uint (start gene_datum) - w_len)"

definition left_win_stop :: "GeneDatum \<Rightarrow> int" where
  "left_win_stop gene_datum = uint (start gene_datum) - 1"

definition right_win_start :: "GeneDatum \<Rightarrow> int" where
  "right_win_start gene_datum = uint (stop gene_datum) + 1"

definition right_win_stop :: "GeneDatum \<Rightarrow> int \<Rightarrow> int" where
  "right_win_stop gene_datum w_len = uint (stop gene_datum) + w_len"

text \<open>
  Modelled from the spec: \<^verbatim>\<open>TransposonData.number_elements\<close>, \<^verbatim>\<open>GeneData.names\<close> and
  \<^verbatim>\<open>GeneData.get_gene\<close> (classes of \<^verbatim>\<open>transposon/data.py\<close>, absent from the sources):
  \<^verbatim>\<open>number_elements = len(starts)\<close>, the sequence of gene names, and the lookup of one
  gene by name.
\<close>

definition number_elements :: "TransposonData \<Rightarrow> nat" where
  "number_elements transposons = length (starts transposons)"

definition names :: "GeneData \<Rightarrow> string list" where
  "names genes = map fst genes"

definition get_gene :: "GeneData \<Rightarrow> string \<Rightarrow> error + GeneDatum" where
  "get_gene genes name =
     (case map_of genes name of None \<Rightarrow> Inl KeyError | Some g \<Rightarrow> Inr g)"

section \<open>NumPy element-wise arithmetic\<close>

text \<open>
  A scalar combined with a \<^verbatim>\<open>uint32\<close> vector is taken in the vector's element type and
  acts on every element; the result is a \<^verbatim>\<open>uint32\<close> vector. Two vectors are combined
  element by element when their lengths agree; a vector of length one is broadcast
  along the other; any other pair of lengths raises \<^verbatim>\<open>ValueError\<close>. Subtraction and
  addition wrap around modulo \<open>2 ^ 32\<close>.
\<close>

definition np_maximum :: "int \<Rightarrow> uint32 list \<Rightarrow> uint32 list" where
  "np_maximum a xs = map (max (word_of_int a)) xs"

definition np_minimum :: "int \<Rightarrow> uint32 list \<Rightarrow> uint32 list" where
  "np_minimum a xs = map (min (word_of_int a)) xs"

definition np_add :: "uint32 list \<Rightarrow> int \<Rightarrow> uint32 list" where
  "np_add xs c = map (\<lambda>x. x + word_of_int c) xs"

definition np_subtract :: "uint32 list \<Rightarrow> uint32 list \<Rightarrow> error + uint32 list" where
  "np_subtract xs ys =
     (if length xs = length ys then Inr (map2 (-) xs ys)
      else if length xs = 1 then Inr (map (\<lambda>y. hd xs - y) ys)
      else if length ys = 1 then Inr (map (\<lambda>x. x - hd ys) xs)
      else Inl ValueError)"

section \<open>The overlap kernel\<close>

definition left :: "GeneDatum \<Rightarrow> TransposonData \<Rightarrow> int \<Rightarrow> error + uint32 list" where
  "left gene_datum transposons window =
     (let w_len = win_length gene_datum window;
          w_0 = left_win_start gene_datum w_len;
          w_1 = left_win_stop gene_datum;
          lower_bound = np_maximum w_0 (starts transposons);
          upper_bound = np_minimum w_1 (stops transposons)
      in case np_subtract upper_bound lower_bound of
           Inl e \<Rightarrow> Inl e
         | Inr d \<Rightarrow> Inr (np_maximum 0 (np_add d 1)))"

definition intra :: "GeneDatum \<Rightarrow> TransposonData \<Rightarrow> error + uint32 list" where
  "intra gene_datum transposons =
     (let g_0 = uint (start gene_datum);
          g_1 = uint (stop gene_datum);
          lower_bound = np_minimum g_0 (stops transposons);
          upper_bound = np_maximum g_1 (starts transposons)
      in case np_subtract lower_bound upper_bound of
           Inl e \<Rightarrow> Inl e
         | Inr d \<Rightarrow> Inr (np_maximum 0 (np_add d 1)))"

definition right :: "GeneDatum \<Rightarrow> TransposonData \<Rightarrow> int \<Rightarrow> error + uint32 list" where
  "right gene_datum transposons window =
     (let w_0 = right_win_start gene_datum;
          w_len = win_length gene_datum window;
          w_1 = right_win_stop gene_datum w_len;
          lower_bound = np_maximum w_0 (starts transposons);
          upper_bound = np_minimum w_1 (stops transposons)
      in case np_subtract upper_bound lower_bound of
           Inl e \<Rightarrow> Inl e
         | Inr d \<Rightarrow> Inr (np_maximum 0 (np_add d 1)))"

text \<open>
  The shape check of \<^verbatim>\<open>density.py\<close>, which its density functions call before they
  compute. The format string of the error message is not modelled.
\<close>

definition check_shape :: "TransposonData \<Rightarrow> error + unit" where
  "check_shape transposon_data =
     (if length (starts transposon_data) \<noteq> length (stops transposon_data) then Inl ValueError
      else if length (starts transposon_data) \<noteq> length (lengths transposon_data)
        then Inl ValueError
      else Inr ())"

text \<open>
  The overlap of the spec's contract, in the spec's words: the TE span \<open>[s, e]\<close> clamped
  to the region \<open>[r0, r1]\<close>, both ends inclusive, floored at zero.
\<close>

definition spec_overlap :: "int \<Rightarrow> int \<Rightarrow> int \<Rightarrow> int \<Rightarrow> int" where
  "spec_overlap r0 r1 s e = max 0 (min r1 e - max r0 s + 1)"

section \<open>The array store\<close>

text \<open>
  The datasets of the HDF5 file hold 32-bit floats. Assigning a \<^verbatim>\<open>uint32\<close> value
  converts it to the nearest float with a 24-bit significand, ties to the even one. Every
  float that the conversion yields has an integer value, and a stored float is modelled
  by that value. \<open>float32_exponent n\<close> is the number of low bits that the significand
  cannot hold, for \<open>n < 2 ^ 32\<close>.
\<close>

definition float32_exponent :: "nat \<Rightarrow> nat" where
  "float32_exponent n =
     (if n < 2 ^ 24 then 0 else if n < 2 ^ 25 then 1 else if n < 2 ^ 26 then 2
      else if n < 2 ^ 27 then 3 else if n < 2 ^ 28 then 4 else if n < 2 ^ 29 then 5
      else if n < 2 ^ 30 then 6 else if n < 2 ^ 31 then 7 else 8)"

definition to_float32 :: "uint32 \<Rightarrow> int" where
  "to_float32 x =
     (let n = unat x;
          e = float32_exponent n;
          q = n div 2 ^ e;
          r = n mod 2 ^ e
      in int (if 2 * r < 2 ^ e \<or> (2 * r = 2 ^ e \<and> even q) then q * 2 ^ e
              else (q + 1) * 2 ^ e))"

text \<open>
  A dataset is its shape, fixed when it is created, and its rows, addressed by the
  leading indices; the TE axis is the row itself. A row that was never assigned is
  \<open>None\<close> (the file holds the fill value there). Compression is not modelled.
\<close>

record dataset3 =
  shape3 :: "nat \<times> nat \<times> nat"
  rows3 :: "nat \<times> nat \<rightharpoonup> int list"

record dataset2 =
  shape2 :: "nat \<times> nat"
  rows2 :: "nat \<rightharpoonup> int list"

definition create_dataset3 :: "nat \<times> nat \<times> nat \<Rightarrow> dataset3" where
  "create_dataset3 shape = \<lparr>shape3 = shape, rows3 = Map.empty\<rparr>"

definition create_dataset2 :: "nat \<times> nat \<Rightarrow> dataset2" where
  "create_dataset2 shape = \<lparr>shape2 = shape, rows2 = Map.empty\<rparr>"

text \<open>
  Assigning a vector to a full row: the vector must have the row's length, or length one
  (it is then broadcast along the row); anything else raises \<^verbatim>\<open>TypeError\<close>. An index
  outside the shape raises \<^verbatim>\<open>IndexError\<close>. The row stores the converted values.
\<close>

definition fit_row :: "nat \<Rightarrow> uint32 list \<Rightarrow> error + uint32 list" where
  "fit_row n v =
     (if length v = n then Inr v
      else if length v = 1 then Inr (replicate n (hd v))
      else Inl TypeError)"

definition write3 :: "dataset3 \<Rightarrow> nat \<times> nat \<Rightarrow> uint32 list \<Rightarrow> error + dataset3" where
  "write3 ds destination v =
     (case shape3 ds of (ng, nw, nt) \<Rightarrow>
        if fst destination < ng \<and> snd destination < nw
        then (case fit_row nt v of
                Inl e \<Rightarrow> Inl e
              | Inr r \<Rightarrow> Inr (ds\<lparr>rows3 := (rows3 ds)(destination \<mapsto> map to_float32 r)\<rparr>))
        else Inl IndexError)"

definition write2 :: "dataset2 \<Rightarrow> nat \<Rightarrow> uint32 list \<Rightarrow> error + dataset2" where
  "write2 ds destination v =
     (case shape2 ds of (ng, nt) \<Rightarrow>
        if destination < ng
        then (case fit_row nt v of
                Inl e \<Rightarrow> Inl e
              | Inr r \<Rightarrow> Inr (ds\<lparr>rows2 := (rows2 ds)(destination \<mapsto> map to_float32 r)\<rparr>))
        else Inl IndexError)"

text \<open>
  \<^verbatim>\<open>_OverlapDataSink\<close>: after \<^verbatim>\<open>__init__\<close> it holds the output directory and the three
  counts (the generated file name and the logger are not modelled). \<^verbatim>\<open>__enter__\<close>
  creates the file in that directory and then its datasets: creating the file raises
  \<^verbatim>\<open>OSError\<close> when the directory is not one in which a file can be created, and
  creating \<^verbatim>\<open>left\<close> with the chunk shape \<^verbatim>\<open>(32, n_win, n_tes)\<close> raises \<^verbatim>\<open>ValueError\<close>
  when the chunk is larger than the dataset along the gene axis or has an empty axis.
  \<^verbatim>\<open>__exit__\<close> flushes and closes the file, whose datasets stay as they were written.
  A \<open>filesystem\<close> is the set of the directories in which a file can be created.
\<close>

type_synonym filesystem = "string set"

record OverlapDataSink =
  root :: string
  n_genes :: nat
  n_tes :: nat
  n_win :: nat

record h5_file =
  sink_left :: dataset3
  sink_right :: dataset3
  sink_intra :: dataset2

definition DEFAULT_OUTPUT_DIR :: string where
  "DEFAULT_OUTPUT_DIR = ''/media/data/genes/output''"

definition sink_init :: "nat \<Rightarrow> nat \<Rightarrow> nat \<Rightarrow> string option \<Rightarrow> OverlapDataSink" where
  "sink_init n_genes' n_transposons n_win' output =
     \<lparr>root = (case output of
                None \<Rightarrow> DEFAULT_OUTPUT_DIR
              | Some dir \<Rightarrow> if dir = [] then DEFAULT_OUTPUT_DIR else dir),
      n_genes = n_genes', n_tes = n_transposons, n_win = n_win'\<rparr>"

definition left_right_slice :: "nat \<Rightarrow> nat \<Rightarrow> nat \<times> nat" where
  "left_right_slice window gene = (gene, window)"

definition intra_slice :: "nat \<Rightarrow> nat" where
  "intra_slice gene = gene"

definition enter :: "filesystem \<Rightarrow> OverlapDataSink \<Rightarrow> error + h5_file" where
  "enter fs self =
     (if root self \<notin> fs then Inl OSError
      else
        let lr_shape = (n_genes self, n_win self, n_tes self);
            i_shape = (n_genes self, n_tes self)
        in if n_genes self < 32 \<or> n_win self = 0 \<or> n_tes self = 0 then Inl ValueError
           else Inr \<lparr>sink_left = create_dataset3 lr_shape,
                     sink_right = create_dataset3 lr_shape,
                     sink_intra = create_dataset2 i_shape\<rparr>)"

section \<open>The orchestrator\<close>

text \<open>
  The two filters are generators that log what they drop: the model returns the yielded
  values and the logged ones.
\<close>

fun filter_gene_names :: "string list \<Rightarrow> string list \<Rightarrow> string list \<times> string list" where
  "filter_gene_names [] gene_names_available = ([], [])"
| "filter_gene_names (name # requested) gene_names_available =
     (let (yielded, logged) = filter_gene_names requested gene_names_available
      in if name \<notin> set gene_names_available then (yielded, name # logged)
         else (name # yielded, logged))"

fun filter_windows :: "int list \<Rightarrow> int list \<times> int list" where
  "filter_windows [] = ([], [])"
| "filter_windows (window # windows) =
     (let (yielded, logged) = filter_windows windows
      in if window < 0 then (yielded, window # logged)
         else (window # yielded, logged))"

text \<open>The dict comprehension over \<^verbatim>\<open>enumerate\<close>: a later pair replaces an earlier one.\<close>

definition map_gene_names_2_indices :: "string list \<Rightarrow> (string \<rightharpoonup> nat)" where
  "map_gene_names_2_indices gene_names =
     fold (\<lambda>(idx, name) d. d(name \<mapsto> idx)) (enumerate 0 gene_names) Map.empty"

definition map_windows_2_indices :: "int list \<Rightarrow> (int \<rightharpoonup> nat)" where
  "map_windows_2_indices windows =
     fold (\<lambda>(idx, win) d. d(win \<mapsto> idx)) (enumerate 0 windows) Map.empty"

record OverlapData =
  self_data :: OverlapDataSink
  self_windows :: "int list"
  self_gene_names :: "string list"
  self_gene_name_2_idx :: "string \<rightharpoonup> nat"
  self_window_2_idx :: "int \<rightharpoonup> nat"

definition reset :: "TransposonData \<Rightarrow> GeneData \<Rightarrow> int list \<Rightarrow> string list \<Rightarrow> OverlapData" where
  "reset transposons genes windows gene_names =
     (let gene_names_filtered = fst (filter_gene_names gene_names (names genes));
          gene_name_2_idx = map_gene_names_2_indices gene_names_filtered;
          windows_filtered = fst (filter_windows windows);
          window_2_idx = map_windows_2_indices windows_filtered;
          n_win = length windows_filtered;
          n_gene = length gene_names_filtered;
          n_te = number_elements transposons
      in \<lparr>self_data = sink_init n_gene n_te n_win None,
          self_windows = windows_filtered,
          self_gene_names = gene_names_filtered,
          self_gene_name_2_idx = gene_name_2_idx,
          self_window_2_idx = window_2_idx\<rparr>)"

text \<open>
  The inner iteration of \<^verbatim>\<open>calculate\<close> over the windows of one gene, and the outer one
  over the gene names. An exception ends the iteration at once. The progress callback is
  the caller's and is not modelled.
\<close>

fun window_loop ::
  "OverlapData \<Rightarrow> GeneDatum \<Rightarrow> TransposonData \<Rightarrow> nat \<Rightarrow> int list \<Rightarrow> h5_file \<Rightarrow> error + h5_file"
where
  "window_loop self gene_datum transposons g_idx [] sink = Inr sink"
| "window_loop self gene_datum transposons g_idx (window # rest) sink =
     (case left gene_datum transposons window of
        Inl e \<Rightarrow> Inl e
      | Inr l \<Rightarrow>
     (case right gene_datum transposons window of
        Inl e \<Rightarrow> Inl e
      | Inr r \<Rightarrow>
     (case self_window_2_idx self window of
        None \<Rightarrow> Inl KeyError
      | Some w_idx \<Rightarrow>
     (case write3 (sink_left sink) (left_right_slice w_idx g_idx) l of
        Inl e \<Rightarrow> Inl e
      | Inr dl \<Rightarrow>
     (case write3 (sink_right sink) (left_right_slice w_idx g_idx) r of
        Inl e \<Rightarrow> Inl e
      | Inr dr \<Rightarrow>
          window_loop self gene_datum transposons g_idx rest
            (sink\<lparr>sink_left := dl, sink_right := dr\<rparr>))))))"

fun gene_loop ::
  "OverlapData \<Rightarrow> GeneData \<Rightarrow> TransposonData \<Rightarrow> string list \<Rightarrow> h5_file \<Rightarrow> error + h5_file"
where
  "gene_loop self genes transposons [] sink = Inr sink"
| "gene_loop self genes transposons (gene_name # rest) sink =
     (case get_gene genes gene_name of
        Inl e \<Rightarrow> Inl e
      | Inr gene_datum \<Rightarrow>
     (case self_gene_name_2_idx self gene_name of
        None \<Rightarrow> Inl KeyError
      | Some g_idx \<Rightarrow>
     (case intra gene_datum transposons of
        Inl e \<Rightarrow> Inl e
      | Inr i \<Rightarrow>
     (case write2 (sink_intra sink) (intra_slice g_idx) i of
        Inl e \<Rightarrow> Inl e
      | Inr di \<Rightarrow>
     (case window_loop self gene_datum transposons g_idx (self_windows self)
             (sink\<lparr>sink_intra := di\<rparr>) of
        Inl e \<Rightarrow> Inl e
      | Inr sink' \<Rightarrow> gene_loop self genes transposons rest sink')))))"

text \<open>
  \<^verbatim>\<open>calculate\<close>, run against a file system, returns the orchestrator's state after
  \<^verbatim>\<open>_reset\<close> together with the datasets of the file it wrote, or the exception that
  ended it.
\<close>

definition calculate ::
  "filesystem \<Rightarrow> GeneData \<Rightarrow> TransposonData \<Rightarrow> int list \<Rightarrow> string list
     \<Rightarrow> error + OverlapData \<times> h5_file"
where
  "calculate fs genes transposons windows gene_names =
     (let self = reset transposons genes windows gene_names
      in case enter fs (self_data self) of
           Inl e \<Rightarrow> Inl e
         | Inr opened \<Rightarrow>
             (case gene_loop self genes transposons (self_gene_names self) opened of
                Inl e \<Rightarrow> Inl e
              | Inr sink \<Rightarrow> Inr (self, sink)))"

section \<open>Invariants of the store\<close>

text \<open>
  Two predicates for the proofs about \<open>calculate\<close>. A store is sound when the TE axis of
  its three datasets is the number of TEs and every row that was assigned holds the
  converted kernel vector of the gene name and the window that the index maps send to
  the row's indices. A store grows into another when the shapes are the same and no
  assigned row becomes unassigned.
\<close>

definition sink_sound :: "OverlapData \<Rightarrow> GeneData \<Rightarrow> TransposonData \<Rightarrow> h5_file \<Rightarrow> bool" where
  "sink_sound self genes transposons sink \<longleftrightarrow>
     snd (snd (shape3 (sink_left sink))) = length (starts transposons) \<and>
     snd (snd (shape3 (sink_right sink))) = length (starts transposons) \<and>
     snd (shape2 (sink_intra sink)) = length (starts transposons) \<and>
     (\<forall>i k v. rows3 (sink_left sink) (i, k) = Some v \<longrightarrow>
        (\<exists>name w gd u. self_gene_name_2_idx self name = Some i \<and> self_window_2_idx self w = Some k
           \<and> get_gene genes name = Inr gd \<and> left gd transposons w = Inr u
           \<and> v = map to_float32 u)) \<and>
     (\<forall>i k v. rows3 (sink_right sink) (i, k) = Some v \<longrightarrow>
        (\<exists>name w gd u. self_gene_name_2_idx self name = Some i \<and> self_window_2_idx self w = Some k
           \<and> get_gene genes name = Inr gd \<and> right gd transposons w = Inr u
           \<and> v = map to_float32 u)) \<and>
     (\<forall>i v. rows2 (sink_intra sink) i = Some v \<longrightarrow>
        (\<exists>name gd u. self_gene_name_2_idx self name = Some i
           \<and> get_gene genes name = Inr gd \<and> intra gd transposons = Inr u
           \<and> v = map to_float32 u))"

definition sink_grows :: "h5_file \<Rightarrow> h5_file \<Rightarrow> bool" where
  "sink_grows sink sink' \<longleftrightarrow>
     shape3 (sink_left sink') = shape3 (sink_left sink) \<and>
     shape3 (sink_right sink') = shape3 (sink_right sink) \<and>
     shape2 (sink_intra sink') = shape2 (sink_intra sink) \<and>
     dom (rows3 (sink_left sink)) \<subseteq> dom (rows3 (sink_left sink')) \<and>
     dom (rows3 (sink_right sink)) \<subseteq> dom (rows3 (sink_right sink')) \<and>
     dom (rows2 (sink_intra sink)) \<subseteq> dom (rows2 (sink_intra sink'))"

section \<open>Properties of the kernel\<close>

lemma np_subtract_same_length:
  "length xs = length ys \<Longrightarrow> np_subtract xs ys = Inr (map2 (-) xs ys)"
  by (simp add: np_subtract_def)

lemma length_np_maximum: "length (np_maximum a xs) = length xs"
  by (simp add: np_maximum_def)

lemma length_np_minimum: "length (np_minimum a xs) = length xs"
  by (simp add: np_minimum_def)

lemma length_np_add: "length (np_add xs c) = length xs"
  by (simp add: np_add_def)

lemma left_same_length:
  assumes "length (starts tes) = length (stops tes)"
  shows "\<exists>v. left g tes w = Inr v \<and> length v = length (starts tes)"
  using assms
  by (simp add: left_def Let_def np_subtract_same_length length_np_maximum length_np_minimum
      length_np_add)

lemma right_same_length:
  assumes "length (starts tes) = length (stops tes)"
  shows "\<exists>v. right g tes w = Inr v \<and> length v = length (starts tes)"
  using assms
  by (simp add: right_def Let_def np_subtract_same_length length_np_maximum length_np_minimum
      length_np_add)

lemma intra_same_length:
  assumes "length (starts tes) = length (stops tes)"
  shows "\<exists>v. intra g tes = Inr v \<and> length v = length (starts tes)"
  using assms
  by (simp add: intra_def Let_def np_subtract_same_length length_np_maximum length_np_minimum
      length_np_add)

lemmas kernel_eval_defs =
  left_def intra_def right_def np_subtract_def np_minimum_def np_maximum_def np_add_def
  win_length_def left_win_start_def left_win_stop_def right_win_start_def right_win_stop_def

text \<open>
  Claim C1. For a gene with \<open>stop \<ge> start\<close> and equal-length TE arrays, \<open>intra\<close> is
  claimed to return \<open>max 0 (min stop stops[i] - max start starts[i] + 1)\<close> at each index,
  21 for the gene \<open>[100, 200]\<close> and the TE \<open>[180, 220]\<close>. The code takes the minimum
  against the gene's start and the maximum against the gene's stop: at that input the
  difference is \<open>100 - 200 + 1\<close>, which wraps around to 4294967197, where the
  contract's formula gives 21.
\<close>

theorem intra_scenario_code_value:
  "intra \<lparr>start = 100, stop = 200\<rparr> \<lparr>starts = [180], stops = [220], lengths = [41]\<rparr>
     = Inr [4294967197]
   \<and> spec_overlap 100 200 180 220 = 21"
  by (simp add: kernel_eval_defs spec_overlap_def)

text \<open>
  Claim C2. A TE collection with \<open>starts\<close> and \<open>stops\<close> of unequal lengths is claimed
  to make each kernel fail with a shape error before any overlap is computed. The kernels
  make no shape check: for one start and two stops NumPy broadcasts the shorter array and
  each kernel returns a vector of two overlaps, where \<open>check_shape\<close>, which the density
  functions call first, raises on the same collection.
\<close>

theorem kernel_broadcast_unchecked:
  "length (starts \<lparr>starts = [60], stops = [80, 220], lengths = [21]\<rparr>)
     \<noteq> length (stops \<lparr>starts = [60], stops = [80, 220], lengths = [21]\<rparr>)
   \<and> left \<lparr>start = 100, stop = 200\<rparr> \<lparr>starts = [60], stops = [80, 220], lengths = [21]\<rparr> 50
       = Inr [21, 40]
   \<and> intra \<lparr>start = 100, stop = 200\<rparr> \<lparr>starts = [60], stops = [80, 220], lengths = [21]\<rparr>
       = Inr [4294967177, 4294967197]
   \<and> right \<lparr>start = 100, stop = 200\<rparr> \<lparr>starts = [60], stops = [80, 220], lengths = [21]\<rparr> 50
       = Inr [4294967176, 20]
   \<and> check_shape \<lparr>starts = [60], stops = [80, 220], lengths = [21]\<rparr> = Inl ValueError"
  by (simp add: kernel_eval_defs check_shape_def)

text \<open>
  Claim C4. \<open>right\<close> is claimed to return, at each index, the overlap with the region
  \<open>[stop + 1, stop + window]\<close> floored at zero. For the gene \<open>[100, 200]\<close> and the
  window 50 the TE \<open>[60, 80]\<close> lies to the left of the region \<open>[201, 250]\<close>: the
  difference \<open>80 - 201 + 1\<close> wraps around to 4294967176 and the final maximum with 0
  keeps it, where the contract's formula gives 0.
\<close>

theorem right_wrapped_value:
  "right \<lparr>start = 100, stop = 200\<rparr> \<lparr>starts = [180, 60], stops = [220, 80], lengths = [41, 21]\<rparr> 50
     = Inr [20, 4294967176]
   \<and> map2 (spec_overlap (200 + 1) (200 + 50)) [180, 60] [220, 80] = [20, 0]"
  by (simp add: kernel_eval_defs spec_overlap_def)

text \<open>
  Claim C7. \<open>left\<close> is claimed to return, at each index, the overlap with the region
  \<open>[max 0 (start - effective window), start - 1]\<close> floored at zero. For the gene
  \<open>[100, 200]\<close> and the window 50 the TE \<open>[180, 220]\<close> lies to the right of the region
  \<open>[50, 99]\<close>: the difference \<open>99 - 180 + 1\<close> wraps around to 4294967216 and the final
  maximum with 0 keeps it, where the contract's formula gives 0.
\<close>

theorem left_wrapped_value:
  "left \<lparr>start = 100, stop = 200\<rparr> \<lparr>starts = [180, 60], stops = [220, 80], lengths = [41, 21]\<rparr> 50
     = Inr [4294967216, 21]
   \<and> map2 (spec_overlap (max 0 (100 - 50)) (100 - 1)) [180, 60] [220, 80] = [0, 21]"
  by (simp add: kernel_eval_defs spec_overlap_def)

text \<open>
  Claim C8. For every gene, every TE collection with equal-length arrays and every
  window, each of \<open>left\<close>, \<open>intra\<close> and \<open>right\<close> returns a vector, one element per TE,
  and every element of it is greater than or equal to 0.
\<close>

theorem overlaps_nonnegative:
  assumes "length (starts tes) = length (stops tes)"
  shows "(\<exists>v. left g tes w = Inr v \<and> length v = length (starts tes) \<and> (\<forall>x\<in>set v. 0 \<le> uint x))
       \<and> (\<exists>v. intra g tes = Inr v \<and> length v = length (starts tes) \<and> (\<forall>x\<in>set v. 0 \<le> uint x))
       \<and> (\<exists>v. right g tes w = Inr v \<and> length v = length (starts tes) \<and> (\<forall>x\<in>set v. 0 \<le> uint x))"
  using left_same_length[OF assms, of g w] intra_same_length[OF assms, of g]
    right_same_length[OF assms, of g w]
  by auto

theorem overlaps_nonnegative_witness:
  "(\<exists>v. left \<lparr>start = 100, stop = 200\<rparr> \<lparr>starts = [180, 60], stops = [220, 80], lengths = [41, 21]\<rparr> 50 = Inr v
        \<and> length v = length [180, 60 :: uint32] \<and> (\<forall>x\<in>set v. 0 \<le> uint x))
   \<and> (\<exists>v. intra \<lparr>start = 100, stop = 200\<rparr> \<lparr>starts = [180, 60], stops = [220, 80], lengths = [41, 21]\<rparr> = Inr v
        \<and> length v = length [180, 60 :: uint32] \<and> (\<forall>x\<in>set v. 0 \<le> uint x))
   \<and> (\<exists>v. right \<lparr>start = 100, stop = 200\<rparr> \<lparr>starts = [180, 60], stops = [220, 80], lengths = [41, 21]\<rparr> 50 = Inr v
        \<and> length v = length [180, 60 :: uint32] \<and> (\<forall>x\<in>set v. 0 \<le> uint x))"
  using overlaps_nonnegative
    [of "\<lparr>starts = [180, 60], stops = [220, 80], lengths = [41, 21]\<rparr>" "\<lparr>start = 100, stop = 200\<rparr>" 50]
  by simp

section \<open>Filtering and index maps\<close>

lemma filter_gene_names_eq:
  "filter_gene_names requested available =
     (filter (\<lambda>n. n \<in> set available) requested, filter (\<lambda>n. n \<notin> set available) requested)"
  by (induction requested) (simp_all add: Let_def)

lemma filter_windows_eq:
  "filter_windows ws = (filter (\<lambda>w. 0 \<le> w) ws, filter (\<lambda>w. w < 0) ws)"
  by (induction ws) (simp_all add: Let_def not_less)

lemma index_fold_last:
  "fold (\<lambda>(idx, x) d. d(x \<mapsto> idx)) (enumerate 0 xs) Map.empty x = Some i
   \<longleftrightarrow> i < length xs \<and> xs ! i = x \<and> (\<forall>j. i < j \<and> j < length xs \<longrightarrow> xs ! j \<noteq> x)"
proof (induction xs arbitrary: i rule: rev_induct)
  case Nil
  then show ?case by simp
next
  case (snoc y xs)
  show ?case
  proof (cases "x = y")
    case True
    have "(length xs = i) = (i < Suc (length xs) \<and> (xs @ [y]) ! i = y
            \<and> (\<forall>j. i < j \<and> j < Suc (length xs) \<longrightarrow> (xs @ [y]) ! j \<noteq> y))"
    proof
      assume "length xs = i"
      then show "i < Suc (length xs) \<and> (xs @ [y]) ! i = y
            \<and> (\<forall>j. i < j \<and> j < Suc (length xs) \<longrightarrow> (xs @ [y]) ! j \<noteq> y)"
        by auto
    next
      assume r: "i < Suc (length xs) \<and> (xs @ [y]) ! i = y
            \<and> (\<forall>j. i < j \<and> j < Suc (length xs) \<longrightarrow> (xs @ [y]) ! j \<noteq> y)"
      show "length xs = i"
      proof (rule ccontr)
        assume "length xs \<noteq> i"
        with r have "i < length xs" by simp
        with r have "(xs @ [y]) ! (length xs) \<noteq> y"
          by (auto dest: spec[of _ "length xs"])
        then show False by simp
      qed
    qed
    with True show ?thesis
      by (simp add: enumerate_append_eq eq_commute[of "length xs" i])
  next
    case False
    have "(i < length xs \<and> xs ! i = x \<and> (\<forall>j. i < j \<and> j < length xs \<longrightarrow> xs ! j \<noteq> x))
        = (i < Suc (length xs) \<and> (xs @ [y]) ! i = x
            \<and> (\<forall>j. i < j \<and> j < Suc (length xs) \<longrightarrow> (xs @ [y]) ! j \<noteq> x))"
      using False by (auto simp: nth_append less_Suc_eq)
    with False snoc show ?thesis
      by (simp add: enumerate_append_eq)
  qed
qed

lemma index_fold_member:
  assumes "x \<in> set xs"
  shows "\<exists>i. fold (\<lambda>(idx, x) d. d(x \<mapsto> idx)) (enumerate 0 xs) Map.empty x = Some i"
  using assms
proof (induction xs rule: rev_induct)
  case Nil
  then show ?case by simp
next
  case (snoc y xs)
  then show ?case by (cases "x = y") (auto simp: enumerate_append_eq)
qed

lemma index_fold_dom:
  "dom (fold (\<lambda>(idx, x) d. d(x \<mapsto> idx)) (enumerate 0 xs) Map.empty) = set xs"
proof (rule set_eqI)
  fix x
  show "x \<in> dom (fold (\<lambda>(idx, x) d. d(x \<mapsto> idx)) (enumerate 0 xs) Map.empty) \<longleftrightarrow> x \<in> set xs"
  proof
    assume "x \<in> dom (fold (\<lambda>(idx, x) d. d(x \<mapsto> idx)) (enumerate 0 xs) Map.empty)"
    then obtain i where "fold (\<lambda>(idx, x) d. d(x \<mapsto> idx)) (enumerate 0 xs) Map.empty x = Some i"
      by blast
    then have "i < length xs \<and> xs ! i = x"
      by (simp add: index_fold_last)
    then show "x \<in> set xs"
      using nth_mem by blast
  next
    assume "x \<in> set xs"
    then show "x \<in> dom (fold (\<lambda>(idx, x) d. d(x \<mapsto> idx)) (enumerate 0 xs) Map.empty)"
      using index_fold_member[of x xs] by blast
  qed
qed

section \<open>The store while the genes and windows are processed\<close>

lemma sink_grows_refl: "sink_grows sink sink"
  by (simp add: sink_grows_def)

lemma sink_grows_trans: "sink_grows a b \<Longrightarrow> sink_grows b c \<Longrightarrow> sink_grows a c"
  unfolding sink_grows_def by (metis subset_trans)

lemma np_subtract_length_one:
  "np_subtract xs ys = Inr d \<Longrightarrow> length d = 1 \<Longrightarrow> length ys = 1"
  by (auto simp: np_subtract_def split: if_splits)

lemma fit_row_clipped:
  assumes "np_subtract xs ys = Inr d" and "length ys = n"
    and "fit_row n (np_maximum 0 (np_add d 1)) = Inr r"
  shows "r = np_maximum 0 (np_add d 1)"
proof (cases "length d = n")
  case True
  with assms(3) show ?thesis
    by (simp add: fit_row_def np_maximum_def np_add_def)
next
  case False
  with assms(3) have "length d = 1"
    by (simp add: fit_row_def np_maximum_def np_add_def split: if_splits)
  with assms(1,2) False show ?thesis
    using np_subtract_length_one by fastforce
qed

lemma left_fit_row:
  assumes "left gd tes w = Inr v" and "fit_row (length (starts tes)) v = Inr r"
  shows "r = v"
proof -
  from assms(1) obtain d where
    d: "np_subtract (np_minimum (left_win_stop gd) (stops tes))
          (np_maximum (left_win_start gd (win_length gd w)) (starts tes)) = Inr d"
    and v: "v = np_maximum 0 (np_add d 1)"
    by (auto simp: left_def Let_def split: sum.splits)
  show ?thesis
    using fit_row_clipped[OF d length_np_maximum] assms(2) v by simp
qed

lemma right_fit_row:
  assumes "right gd tes w = Inr v" and "fit_row (length (starts tes)) v = Inr r"
  shows "r = v"
proof -
  from assms(1) obtain d where
    d: "np_subtract (np_minimum (right_win_stop gd (win_length gd w)) (stops tes))
          (np_maximum (right_win_start gd) (starts tes)) = Inr d"
    and v: "v = np_maximum 0 (np_add d 1)"
    by (auto simp: right_def Let_def split: sum.splits)
  show ?thesis
    using fit_row_clipped[OF d length_np_maximum] assms(2) v by simp
qed

lemma intra_fit_row:
  assumes "intra gd tes = Inr v" and "fit_row (length (starts tes)) v = Inr r"
  shows "r = v"
proof -
  from assms(1) obtain d where
    d: "np_subtract (np_minimum (uint (start gd)) (stops tes))
          (np_maximum (uint (stop gd)) (starts tes)) = Inr d"
    and v: "v = np_maximum 0 (np_add d 1)"
    by (auto simp: intra_def Let_def split: sum.splits)
  show ?thesis
    using fit_row_clipped[OF d length_np_maximum] assms(2) v by simp
qed

lemma write3_Inr:
  assumes "write3 ds destination v = Inr ds'"
  shows "shape3 ds' = shape3 ds
       \<and> (\<exists>r. fit_row (snd (snd (shape3 ds))) v = Inr r \<and> rows3 ds' = (rows3 ds)(destination \<mapsto> map to_float32 r))"
  using assms
  by (auto simp: write3_def split: prod.splits if_splits sum.splits)

lemma write2_Inr:
  assumes "write2 ds destination v = Inr ds'"
  shows "shape2 ds' = shape2 ds
       \<and> (\<exists>r. fit_row (snd (shape2 ds)) v = Inr r \<and> rows2 ds' = (rows2 ds)(destination \<mapsto> map to_float32 r))"
  using assms
  by (auto simp: write2_def split: prod.splits if_splits sum.splits)

lemma window_step:
  assumes sound: "sink_sound self genes tes sink"
    and g: "self_gene_name_2_idx self name = Some g" "get_gene genes name = Inr gd"
    and l: "left gd tes w = Inr l" and r: "right gd tes w = Inr r"
    and k: "self_window_2_idx self w = Some k"
    and dl: "write3 (sink_left sink) (left_right_slice k g) l = Inr dl"
    and dr: "write3 (sink_right sink) (left_right_slice k g) r = Inr dr"
  shows "sink_sound self genes tes (sink\<lparr>sink_left := dl, sink_right := dr\<rparr>)"
    and "sink_grows sink (sink\<lparr>sink_left := dl, sink_right := dr\<rparr>)"
    and "rows3 dl (g, k) = Some (map to_float32 l)" and "rows3 dr (g, k) = Some (map to_float32 r)"
proof -
  from sound have nt: "snd (snd (shape3 (sink_left sink))) = length (starts tes)"
    "snd (snd (shape3 (sink_right sink))) = length (starts tes)"
    by (simp_all add: sink_sound_def)
  from write3_Inr[OF dl] nt(1) left_fit_row[OF l]
  have dl': "shape3 dl = shape3 (sink_left sink)" "rows3 dl = (rows3 (sink_left sink))((g, k) \<mapsto> map to_float32 l)"
    by (auto simp: left_right_slice_def)
  from write3_Inr[OF dr] nt(2) right_fit_row[OF r]
  have dr': "shape3 dr = shape3 (sink_right sink)" "rows3 dr = (rows3 (sink_right sink))((g, k) \<mapsto> map to_float32 r)"
    by (auto simp: left_right_slice_def)
  show "rows3 dl (g, k) = Some (map to_float32 l)" "rows3 dr (g, k) = Some (map to_float32 r)"
    using dl' dr' by simp_all
  show "sink_grows sink (sink\<lparr>sink_left := dl, sink_right := dr\<rparr>)"
    using dl' dr' by (auto simp: sink_grows_def)
  have left_ok: "\<exists>name w gd u. self_gene_name_2_idx self name = Some i \<and> self_window_2_idx self w = Some j
           \<and> get_gene genes name = Inr gd \<and> left gd tes w = Inr u \<and> v = map to_float32 u"
    if "rows3 dl (i, j) = Some v" for i j v
  proof (cases "(i, j) = (g, k)")
    case True
    with that dl' have "v = map to_float32 l" by simp
    with True g l k show ?thesis by auto
  next
    case False
    with that dl' have "rows3 (sink_left sink) (i, j) = Some v" by (simp split: if_splits)
    with sound show ?thesis unfolding sink_sound_def by blast
  qed
  have right_ok: "\<exists>name w gd u. self_gene_name_2_idx self name = Some i \<and> self_window_2_idx self w = Some j
           \<and> get_gene genes name = Inr gd \<and> right gd tes w = Inr u \<and> v = map to_float32 u"
    if "rows3 dr (i, j) = Some v" for i j v
  proof (cases "(i, j) = (g, k)")
    case True
    with that dr' have "v = map to_float32 r" by simp
    with True g r k show ?thesis by auto
  next
    case False
    with that dr' have "rows3 (sink_right sink) (i, j) = Some v" by (simp split: if_splits)
    with sound show ?thesis unfolding sink_sound_def by blast
  qed
  show "sink_sound self genes tes (sink\<lparr>sink_left := dl, sink_right := dr\<rparr>)"
    unfolding sink_sound_def
  proof (intro conjI allI impI)
    show "snd (snd (shape3 (sink_left (sink\<lparr>sink_left := dl, sink_right := dr\<rparr>)))) = length (starts tes)"
      using dl' nt by simp
    show "snd (snd (shape3 (sink_right (sink\<lparr>sink_left := dl, sink_right := dr\<rparr>)))) = length (starts tes)"
      using dr' nt by simp
    show "snd (shape2 (sink_intra (sink\<lparr>sink_left := dl, sink_right := dr\<rparr>))) = length (starts tes)"
      using sound by (simp add: sink_sound_def)
  next
    fix i j v
    assume "rows3 (sink_left (sink\<lparr>sink_left := dl, sink_right := dr\<rparr>)) (i, j) = Some v"
    then show "\<exists>name w gd u. self_gene_name_2_idx self name = Some i \<and> self_window_2_idx self w = Some j
           \<and> get_gene genes name = Inr gd \<and> left gd tes w = Inr u \<and> v = map to_float32 u"
      using left_ok by simp
  next
    fix i j v
    assume "rows3 (sink_right (sink\<lparr>sink_left := dl, sink_right := dr\<rparr>)) (i, j) = Some v"
    then show "\<exists>name w gd u. self_gene_name_2_idx self name = Some i \<and> self_window_2_idx self w = Some j
           \<and> get_gene genes name = Inr gd \<and> right gd tes w = Inr u \<and> v = map to_float32 u"
      using right_ok by simp
  next
    fix i v
    assume "rows2 (sink_intra (sink\<lparr>sink_left := dl, sink_right := dr\<rparr>)) i = Some v"
    then show "\<exists>name gd u. self_gene_name_2_idx self name = Some i
           \<and> get_gene genes name = Inr gd \<and> intra gd tes = Inr u \<and> v = map to_float32 u"
      using sound by (simp add: sink_sound_def)
  qed
qed

lemma intra_step:
  assumes sound: "sink_sound self genes tes sink"
    and g: "self_gene_name_2_idx self name = Some g" "get_gene genes name = Inr gd"
    and i: "intra gd tes = Inr v"
    and di: "write2 (sink_intra sink) (intra_slice g) v = Inr di"
  shows "sink_sound self genes tes (sink\<lparr>sink_intra := di\<rparr>)"
    and "sink_grows sink (sink\<lparr>sink_intra := di\<rparr>)"
    and "rows2 di g = Some (map to_float32 v)"
proof -
  from sound have nt: "snd (shape2 (sink_intra sink)) = length (starts tes)"
    by (simp add: sink_sound_def)
  from write2_Inr[OF di] nt intra_fit_row[OF i]
  have di': "shape2 di = shape2 (sink_intra sink)" "rows2 di = (rows2 (sink_intra sink))(g \<mapsto> map to_float32 v)"
    by (auto simp: intra_slice_def)
  show "rows2 di g = Some (map to_float32 v)"
    using di' by simp
  show "sink_grows sink (sink\<lparr>sink_intra := di\<rparr>)"
    using di' by (auto simp: sink_grows_def)
  have intra_ok: "\<exists>name gd u'. self_gene_name_2_idx self name = Some j
           \<and> get_gene genes name = Inr gd \<and> intra gd tes = Inr u' \<and> u = map to_float32 u'"
    if "rows2 di j = Some u" for j u
  proof (cases "j = g")
    case True
    with that di' have "u = map to_float32 v" by simp
    with True g i show ?thesis by auto
  next
    case False
    with that di' have "rows2 (sink_intra sink) j = Some u" by simp
    with sound show ?thesis unfolding sink_sound_def by blast
  qed
  show "sink_sound self genes tes (sink\<lparr>sink_intra := di\<rparr>)"
    unfolding sink_sound_def
  proof (intro conjI allI impI)
    show "snd (snd (shape3 (sink_left (sink\<lparr>sink_intra := di\<rparr>)))) = length (starts tes)"
      using sound by (simp add: sink_sound_def)
    show "snd (snd (shape3 (sink_right (sink\<lparr>sink_intra := di\<rparr>)))) = length (starts tes)"
      using sound by (simp add: sink_sound_def)
    show "snd (shape2 (sink_intra (sink\<lparr>sink_intra := di\<rparr>))) = length (starts tes)"
      using di' nt by simp
  next
    fix i j u
    assume "rows3 (sink_left (sink\<lparr>sink_intra := di\<rparr>)) (i, j) = Some u"
    then show "\<exists>name w gd u'. self_gene_name_2_idx self name = Some i \<and> self_window_2_idx self w = Some j
           \<and> get_gene genes name = Inr gd \<and> left gd tes w = Inr u' \<and> u = map to_float32 u'"
      using sound by (simp add: sink_sound_def)
  next
    fix i j u
    assume "rows3 (sink_right (sink\<lparr>sink_intra := di\<rparr>)) (i, j) = Some u"
    then show "\<exists>name w gd u'. self_gene_name_2_idx self name = Some i \<and> self_window_2_idx self w = Some j
           \<and> get_gene genes name = Inr gd \<and> right gd tes w = Inr u' \<and> u = map to_float32 u'"
      using sound by (simp add: sink_sound_def)
  next
    fix j u
    assume "rows2 (sink_intra (sink\<lparr>sink_intra := di\<rparr>)) j = Some u"
    then show "\<exists>name gd u'. self_gene_name_2_idx self name = Some j
           \<and> get_gene genes name = Inr gd \<and> intra gd tes = Inr u' \<and> u = map to_float32 u'"
      using intra_ok by simp
  qed
qed

lemma window_loop_invariant:
  assumes "sink_sound self genes tes sink"
    and "self_gene_name_2_idx self name = Some g" and "get_gene genes name = Inr gd"
    and "window_loop self gd tes g ws sink = Inr sink'"
  shows "sink_sound self genes tes sink' \<and> sink_grows sink sink'
       \<and> (\<forall>w\<in>set ws. \<exists>k. self_window_2_idx self w = Some k
             \<and> (g, k) \<in> dom (rows3 (sink_left sink')) \<and> (g, k) \<in> dom (rows3 (sink_right sink')))"
  using assms
proof (induction ws arbitrary: sink)
  case Nil
  then show ?case by (simp add: sink_grows_refl)
next
  case (Cons w ws)
  from Cons.prems(4) obtain l r k dl dr where
    l: "left gd tes w = Inr l" and r: "right gd tes w = Inr r"
    and k: "self_window_2_idx self w = Some k"
    and dl: "write3 (sink_left sink) (left_right_slice k g) l = Inr dl"
    and dr: "write3 (sink_right sink) (left_right_slice k g) r = Inr dr"
    and rest: "window_loop self gd tes g ws (sink\<lparr>sink_left := dl, sink_right := dr\<rparr>) = Inr sink'"
    by (auto split: sum.splits option.splits)
  let ?s1 = "sink\<lparr>sink_left := dl, sink_right := dr\<rparr>"
  note step = window_step[OF Cons.prems(1) Cons.prems(2) Cons.prems(3) l r k dl dr]
  from Cons.IH[OF step(1) Cons.prems(2) Cons.prems(3) rest]
  have ih: "sink_sound self genes tes sink'" "sink_grows ?s1 sink'"
    "\<forall>w\<in>set ws. \<exists>k. self_window_2_idx self w = Some k
          \<and> (g, k) \<in> dom (rows3 (sink_left sink')) \<and> (g, k) \<in> dom (rows3 (sink_right sink'))"
    by simp_all
  have grows: "sink_grows sink sink'"
    using sink_grows_trans[OF step(2) ih(2)] .
  have "(g, k) \<in> dom (rows3 (sink_left ?s1))" "(g, k) \<in> dom (rows3 (sink_right ?s1))"
    using step(3,4) by auto
  with ih(2) have "(g, k) \<in> dom (rows3 (sink_left sink'))" "(g, k) \<in> dom (rows3 (sink_right sink'))"
    unfolding sink_grows_def by blast+
  with k ih(1,3) grows show ?case by auto
qed

lemma gene_loop_invariant:
  assumes "sink_sound self genes tes sink"
    and "gene_loop self genes tes gs sink = Inr sink'"
  shows "sink_sound self genes tes sink' \<and> sink_grows sink sink'
       \<and> (\<forall>name\<in>set gs. \<exists>g. self_gene_name_2_idx self name = Some g
             \<and> g \<in> dom (rows2 (sink_intra sink'))
             \<and> (\<forall>w\<in>set (self_windows self). \<exists>k. self_window_2_idx self w = Some k
                   \<and> (g, k) \<in> dom (rows3 (sink_left sink'))
                   \<and> (g, k) \<in> dom (rows3 (sink_right sink'))))"
  using assms
proof (induction gs arbitrary: sink)
  case Nil
  then show ?case by (simp add: sink_grows_refl)
next
  case (Cons name gs)
  from Cons.prems(2) obtain gd g v di s2 where
    gd: "get_gene genes name = Inr gd" and g: "self_gene_name_2_idx self name = Some g"
    and v: "intra gd tes = Inr v"
    and di: "write2 (sink_intra sink) (intra_slice g) v = Inr di"
    and wl: "window_loop self gd tes g (self_windows self) (sink\<lparr>sink_intra := di\<rparr>) = Inr s2"
    and rest: "gene_loop self genes tes gs s2 = Inr sink'"
    by (auto split: sum.splits option.splits)
  let ?s1 = "sink\<lparr>sink_intra := di\<rparr>"
  note istep = intra_step[OF Cons.prems(1) g gd v di]
  from window_loop_invariant[OF istep(1) g gd wl]
  have w: "sink_sound self genes tes s2" "sink_grows ?s1 s2"
    "\<forall>w\<in>set (self_windows self). \<exists>k. self_window_2_idx self w = Some k
         \<and> (g, k) \<in> dom (rows3 (sink_left s2)) \<and> (g, k) \<in> dom (rows3 (sink_right s2))"
    by simp_all
  from Cons.IH[OF w(1) rest]
  have ih: "sink_sound self genes tes sink'" "sink_grows s2 sink'"
    "\<forall>name\<in>set gs. \<exists>g. self_gene_name_2_idx self name = Some g
             \<and> g \<in> dom (rows2 (sink_intra sink'))
             \<and> (\<forall>w\<in>set (self_windows self). \<exists>k. self_window_2_idx self w = Some k
                   \<and> (g, k) \<in> dom (rows3 (sink_left sink'))
                   \<and> (g, k) \<in> dom (rows3 (sink_right sink')))"
    by simp_all
  have grows: "sink_grows sink sink'"
    using sink_grows_trans[OF istep(2) sink_grows_trans[OF w(2) ih(2)]] .
  have "g \<in> dom (rows2 (sink_intra ?s1))"
    using istep(3) by auto
  with w(2) ih(2) have gi: "g \<in> dom (rows2 (sink_intra sink'))"
    unfolding sink_grows_def by blast
  have gw: "\<forall>w\<in>set (self_windows self). \<exists>k. self_window_2_idx self w = Some k
                   \<and> (g, k) \<in> dom (rows3 (sink_left sink'))
                   \<and> (g, k) \<in> dom (rows3 (sink_right sink'))"
  proof
    fix w assume "w \<in> set (self_windows self)"
    with w(3) obtain k where "self_window_2_idx self w = Some k"
      "(g, k) \<in> dom (rows3 (sink_left s2))" "(g, k) \<in> dom (rows3 (sink_right s2))"
      by blast
    with ih(2) show "\<exists>k. self_window_2_idx self w = Some k
                   \<and> (g, k) \<in> dom (rows3 (sink_left sink'))
                   \<and> (g, k) \<in> dom (rows3 (sink_right sink'))"
      unfolding sink_grows_def by blast
  qed
  from g gi gw ih(1,3) grows show ?case by auto
qed

lemma reset_fields:
  "self_gene_names (reset tes genes ws gnames) = filter (\<lambda>n. n \<in> set (names genes)) gnames"
  "self_windows (reset tes genes ws gnames) = filter (\<lambda>w. 0 \<le> w) ws"
  "self_gene_name_2_idx (reset tes genes ws gnames)
     = map_gene_names_2_indices (filter (\<lambda>n. n \<in> set (names genes)) gnames)"
  "self_window_2_idx (reset tes genes ws gnames)
     = map_windows_2_indices (filter (\<lambda>w. 0 \<le> w) ws)"
  "self_data (reset tes genes ws gnames)
     = sink_init (length (filter (\<lambda>n. n \<in> set (names genes)) gnames)) (number_elements tes)
         (length (filter (\<lambda>w. 0 \<le> w) ws)) None"
  by (simp_all add: reset_def Let_def filter_gene_names_eq filter_windows_eq)

lemma calculate_Inr:
  assumes "calculate fs genes tes ws gnames = Inr (self, f)"
  shows "self = reset tes genes ws gnames"
    and "\<exists>opened. enter fs (self_data self) = Inr opened
           \<and> gene_loop self genes tes (self_gene_names self) opened = Inr f"
  using assms by (auto simp: calculate_def Let_def split: sum.splits)

lemma enter_Inr:
  assumes "enter fs s = Inr opened"
  shows "shape3 (sink_left opened) = (n_genes s, n_win s, n_tes s)"
    and "shape3 (sink_right opened) = (n_genes s, n_win s, n_tes s)"
    and "shape2 (sink_intra opened) = (n_genes s, n_tes s)"
    and "rows3 (sink_left opened) = Map.empty"
    and "rows3 (sink_right opened) = Map.empty"
    and "rows2 (sink_intra opened) = Map.empty"
    and "root s \<in> fs" and "32 \<le> n_genes s" and "0 < n_win s" and "0 < n_tes s"
  using assms
  by (auto simp: enter_def Let_def create_dataset3_def create_dataset2_def split: if_splits)

lemma enter_sound:
  assumes "enter fs (self_data (reset tes genes ws gnames)) = Inr opened"
  shows "sink_sound (reset tes genes ws gnames) genes tes opened"
  using enter_Inr(1-6)[OF assms]
  by (simp add: sink_sound_def reset_fields sink_init_def number_elements_def)

lemma gene_idx_last:
  "map_gene_names_2_indices xs x = Some i
   \<longleftrightarrow> i < length xs \<and> xs ! i = x \<and> (\<forall>j. i < j \<and> j < length xs \<longrightarrow> xs ! j \<noteq> x)"
  unfolding map_gene_names_2_indices_def by (rule index_fold_last)

lemma window_idx_last:
  "map_windows_2_indices xs x = Some i
   \<longleftrightarrow> i < length xs \<and> xs ! i = x \<and> (\<forall>j. i < j \<and> j < length xs \<longrightarrow> xs ! j \<noteq> x)"
  unfolding map_windows_2_indices_def by (rule index_fold_last)

lemma calculate_invariant:
  assumes "calculate fs genes tes ws gnames = Inr (self, f)"
  shows "sink_sound self genes tes f"
    and "shape3 (sink_left f)
           = (length (self_gene_names self), length (self_windows self), number_elements tes)"
    and "shape3 (sink_right f)
           = (length (self_gene_names self), length (self_windows self), number_elements tes)"
    and "shape2 (sink_intra f) = (length (self_gene_names self), number_elements tes)"
    and "\<forall>name\<in>set (self_gene_names self). \<exists>g. self_gene_name_2_idx self name = Some g
             \<and> g \<in> dom (rows2 (sink_intra f))
             \<and> (\<forall>w\<in>set (self_windows self). \<exists>k. self_window_2_idx self w = Some k
                   \<and> (g, k) \<in> dom (rows3 (sink_left f))
                   \<and> (g, k) \<in> dom (rows3 (sink_right f)))"
    and "32 \<le> length (self_gene_names self)" and "self_windows self \<noteq> []"
    and "starts tes \<noteq> []" and "DEFAULT_OUTPUT_DIR \<in> fs"
proof -
  note c = calculate_Inr[OF assms]
  from c(2) obtain opened where o: "enter fs (self_data self) = Inr opened"
    and gl: "gene_loop self genes tes (self_gene_names self) opened = Inr f"
    by blast
  have "sink_sound self genes tes opened"
    using o unfolding c(1) by (rule enter_sound)
  from gene_loop_invariant[OF this gl]
  have inv: "sink_sound self genes tes f" "sink_grows opened f"
    "\<forall>name\<in>set (self_gene_names self). \<exists>g. self_gene_name_2_idx self name = Some g
             \<and> g \<in> dom (rows2 (sink_intra f))
             \<and> (\<forall>w\<in>set (self_windows self). \<exists>k. self_window_2_idx self w = Some k
                   \<and> (g, k) \<in> dom (rows3 (sink_left f))
                   \<and> (g, k) \<in> dom (rows3 (sink_right f)))"
    by simp_all
  show "sink_sound self genes tes f" by (rule inv(1))
  show "\<forall>name\<in>set (self_gene_names self). \<exists>g. self_gene_name_2_idx self name = Some g
             \<and> g \<in> dom (rows2 (sink_intra f))
             \<and> (\<forall>w\<in>set (self_windows self). \<exists>k. self_window_2_idx self w = Some k
                   \<and> (g, k) \<in> dom (rows3 (sink_left f))
                   \<and> (g, k) \<in> dom (rows3 (sink_right f)))"
    by (rule inv(3))
  have d: "self_data self = sink_init (length (self_gene_names self)) (number_elements tes)
             (length (self_windows self)) None"
    unfolding c(1) by (simp add: reset_fields)
  note e = enter_Inr[OF o]
  show "shape3 (sink_left f)
           = (length (self_gene_names self), length (self_windows self), number_elements tes)"
    "shape3 (sink_right f)
           = (length (self_gene_names self), length (self_windows self), number_elements tes)"
    "shape2 (sink_intra f) = (length (self_gene_names self), number_elements tes)"
    using inv(2) e(1,2,3) unfolding d by (simp_all add: sink_grows_def sink_init_def)
  show "32 \<le> length (self_gene_names self)" "self_windows self \<noteq> []"
    "starts tes \<noteq> []" "DEFAULT_OUTPUT_DIR \<in> fs"
    using e(7-10) unfolding d by (simp_all add: sink_init_def number_elements_def)
qed

lemma gene_idx_unique:
  assumes "calculate fs genes tes ws gnames = Inr (self, f)"
    and "self_gene_name_2_idx self a = Some i"
  shows "i < length (self_gene_names self) \<and> self_gene_names self ! i = a
       \<and> (\<forall>j. i < j \<and> j < length (self_gene_names self) \<longrightarrow> self_gene_names self ! j \<noteq> a)"
  using assms(2) unfolding calculate_Inr(1)[OF assms(1)] reset_fields
  by (simp add: gene_idx_last)

lemma window_idx_unique:
  assumes "calculate fs genes tes ws gnames = Inr (self, f)"
    and "self_window_2_idx self a = Some i"
  shows "i < length (self_windows self) \<and> self_windows self ! i = a"
  using assms(2) unfolding calculate_Inr(1)[OF assms(1)] reset_fields
  by (simp add: window_idx_last)

lemma stored_rows:
  assumes c: "calculate fs genes tes ws gnames = Inr (self, f)"
    and g: "g \<in> set (self_gene_names self)"
  shows "\<exists>g_idx gd vi.
           self_gene_name_2_idx self g = Some g_idx \<and> get_gene genes g = Inr gd
         \<and> intra gd tes = Inr vi \<and> rows2 (sink_intra f) g_idx = Some (map to_float32 vi)
         \<and> (\<forall>w\<in>set (self_windows self). \<exists>w_idx vl vr.
               self_window_2_idx self w = Some w_idx
             \<and> left gd tes w = Inr vl
             \<and> rows3 (sink_left f) (g_idx, w_idx) = Some (map to_float32 vl)
             \<and> right gd tes w = Inr vr
             \<and> rows3 (sink_right f) (g_idx, w_idx) = Some (map to_float32 vr))"
proof -
  note inv = calculate_invariant[OF c]
  from inv(5) g obtain gi where gi: "self_gene_name_2_idx self g = Some gi"
    "gi \<in> dom (rows2 (sink_intra f))"
    and wins: "\<forall>w\<in>set (self_windows self). \<exists>k. self_window_2_idx self w = Some k
                   \<and> (gi, k) \<in> dom (rows3 (sink_left f))
                   \<and> (gi, k) \<in> dom (rows3 (sink_right f))"
    by blast
  from gi(2) obtain ri where ri: "rows2 (sink_intra f) gi = Some ri" by blast
  with inv(1) obtain name gd vi where n: "self_gene_name_2_idx self name = Some gi"
    "get_gene genes name = Inr gd" "intra gd tes = Inr vi" "ri = map to_float32 vi"
    unfolding sink_sound_def by blast
  from gene_idx_unique[OF c n(1)] gene_idx_unique[OF c gi(1)] have "name = g" by simp
  with n have gd: "get_gene genes g = Inr gd" "intra gd tes = Inr vi" by simp_all
  have "\<exists>w_idx vl vr. self_window_2_idx self w = Some w_idx
             \<and> left gd tes w = Inr vl
             \<and> rows3 (sink_left f) (gi, w_idx) = Some (map to_float32 vl)
             \<and> right gd tes w = Inr vr
             \<and> rows3 (sink_right f) (gi, w_idx) = Some (map to_float32 vr)"
    if w: "w \<in> set (self_windows self)" for w
  proof -
    from wins w obtain k where k: "self_window_2_idx self w = Some k"
      "(gi, k) \<in> dom (rows3 (sink_left f))" "(gi, k) \<in> dom (rows3 (sink_right f))"
      by blast
    from k(2) obtain rl where rl: "rows3 (sink_left f) (gi, k) = Some rl" by blast
    from k(3) obtain rr where rr: "rows3 (sink_right f) (gi, k) = Some rr" by blast
    from rl inv(1) obtain n1 w1 gd1 vl where l1: "self_gene_name_2_idx self n1 = Some gi"
      "self_window_2_idx self w1 = Some k" "get_gene genes n1 = Inr gd1" "left gd1 tes w1 = Inr vl"
      "rl = map to_float32 vl"
      unfolding sink_sound_def by blast
    from rr inv(1) obtain n2 w2 gd2 vr where r2: "self_gene_name_2_idx self n2 = Some gi"
      "self_window_2_idx self w2 = Some k" "get_gene genes n2 = Inr gd2" "right gd2 tes w2 = Inr vr"
      "rr = map to_float32 vr"
      unfolding sink_sound_def by blast
    from gene_idx_unique[OF c l1(1)] gene_idx_unique[OF c r2(1)] gene_idx_unique[OF c gi(1)]
    have "n1 = g" "n2 = g" by simp_all
    moreover from window_idx_unique[OF c l1(2)] window_idx_unique[OF c r2(2)]
      window_idx_unique[OF c k(1)]
    have "w1 = w" "w2 = w" by simp_all
    ultimately have "left gd tes w = Inr vl" "right gd tes w = Inr vr"
      using l1 r2 gd by simp_all
    with k(1) rl rr l1(5) r2(5) show ?thesis by blast
  qed
  with gi(1) gd ri n(4) show ?thesis by blast
qed

lemma unmapped_rows:
  assumes c: "calculate fs genes tes ws gnames = Inr (self, f)"
    and "\<forall>name. self_gene_name_2_idx self name \<noteq> Some i"
  shows "rows2 (sink_intra f) i = None
       \<and> (\<forall>k. rows3 (sink_left f) (i, k) = None \<and> rows3 (sink_right f) (i, k) = None)"
proof -
  note inv = calculate_invariant[OF c]
  have "rows2 (sink_intra f) i = None"
  proof (rule ccontr)
    assume "rows2 (sink_intra f) i \<noteq> None"
    then obtain v where "rows2 (sink_intra f) i = Some v" by blast
    with inv(1) assms(2) show False unfolding sink_sound_def by blast
  qed
  moreover have "rows3 (sink_left f) (i, k) = None" for k
  proof (rule ccontr)
    assume "rows3 (sink_left f) (i, k) \<noteq> None"
    then obtain v where "rows3 (sink_left f) (i, k) = Some v" by blast
    with inv(1) assms(2) show False unfolding sink_sound_def by blast
  qed
  moreover have "rows3 (sink_right f) (i, k) = None" for k
  proof (rule ccontr)
    assume "rows3 (sink_right f) (i, k) \<noteq> None"
    then obtain v where "rows3 (sink_right f) (i, k) = Some v" by blast
    with inv(1) assms(2) show False unfolding sink_sound_def by blast
  qed
  ultimately show ?thesis by blast
qed

lemma to_float32_exact:
  assumes "uint x \<le> 2 ^ 24"
  shows "to_float32 x = uint x"
proof (cases "unat x < 2 ^ 24")
  case True
  then show ?thesis
    by (simp add: to_float32_def float32_exponent_def Let_def)
next
  case False
  from assms have "unat x \<le> 2 ^ 24"
    by (metis nat_le_iff of_nat_numeral of_nat_power unat_eq_nat_uint nat_mono
        nat_numeral nat_power_eq zero_le_numeral)
  with False have "unat x = 2 ^ 24" by simp
  then show ?thesis
    by (simp add: to_float32_def float32_exponent_def Let_def uint_nat)
qed

section \<open>Completion of a calculation without an exception\<close>

lemma write3_ok:
  assumes "shape3 ds = (ng, nw, length v)" and "g < ng" and "k < nw"
  shows "\<exists>ds'. write3 ds (left_right_slice k g) v = Inr ds' \<and> shape3 ds' = shape3 ds"
  using assms by (simp add: write3_def left_right_slice_def fit_row_def)

lemma write2_ok:
  assumes "shape2 ds = (ng, length v)" and "g < ng"
  shows "\<exists>ds'. write2 ds (intra_slice g) v = Inr ds' \<and> shape2 ds' = shape2 ds"
  using assms by (simp add: write2_def intra_slice_def fit_row_def)

lemma window_loop_completes:
  assumes "length (starts tes) = length (stops tes)"
    and "shape3 (sink_left sink) = (ng, nw, length (starts tes))"
    and "shape3 (sink_right sink) = (ng, nw, length (starts tes))"
    and "g < ng"
    and "\<forall>w\<in>set ws. \<exists>k. self_window_2_idx self w = Some k \<and> k < nw"
  shows "\<exists>sink'. window_loop self gd tes g ws sink = Inr sink'
           \<and> shape3 (sink_left sink') = shape3 (sink_left sink)
           \<and> shape3 (sink_right sink') = shape3 (sink_right sink)
           \<and> shape2 (sink_intra sink') = shape2 (sink_intra sink)"
  using assms(2,3,5)
proof (induction ws arbitrary: sink)
  case Nil
  then show ?case by simp
next
  case (Cons w ws)
  from assms(1) obtain l where l: "left gd tes w = Inr l" "length l = length (starts tes)"
    using left_same_length by blast
  from assms(1) obtain r where r: "right gd tes w = Inr r" "length r = length (starts tes)"
    using right_same_length by blast
  from Cons.prems(3) obtain k where k: "self_window_2_idx self w = Some k" "k < nw"
    by auto
  from write3_ok[of "sink_left sink" ng nw l g k] Cons.prems(1) l(2) assms(4) k(2)
  obtain dl where dl: "write3 (sink_left sink) (left_right_slice k g) l = Inr dl"
    "shape3 dl = shape3 (sink_left sink)"
    by auto
  from write3_ok[of "sink_right sink" ng nw r g k] Cons.prems(2) r(2) assms(4) k(2)
  obtain dr where dr: "write3 (sink_right sink) (left_right_slice k g) r = Inr dr"
    "shape3 dr = shape3 (sink_right sink)"
    by auto
  let ?s1 = "sink\<lparr>sink_left := dl, sink_right := dr\<rparr>"
  have "shape3 (sink_left ?s1) = (ng, nw, length (starts tes))"
    "shape3 (sink_right ?s1) = (ng, nw, length (starts tes))"
    "\<forall>w\<in>set ws. \<exists>k. self_window_2_idx self w = Some k \<and> k < nw"
    using dl(2) dr(2) Cons.prems by simp_all
  from Cons.IH[OF this] obtain sink' where
    "window_loop self gd tes g ws ?s1 = Inr sink'"
    "shape3 (sink_left sink') = shape3 (sink_left ?s1)"
    "shape3 (sink_right sink') = shape3 (sink_right ?s1)"
    "shape2 (sink_intra sink') = shape2 (sink_intra ?s1)"
    by blast
  with l(1) r(1) k(1) dl dr show ?case by simp
qed

lemma gene_loop_completes:
  assumes eq: "length (starts tes) = length (stops tes)"
    and "shape3 (sink_left sink) = (ng, nw, length (starts tes))"
    and "shape3 (sink_right sink) = (ng, nw, length (starts tes))"
    and "shape2 (sink_intra sink) = (ng, length (starts tes))"
    and wins: "\<forall>w\<in>set (self_windows self). \<exists>k. self_window_2_idx self w = Some k \<and> k < nw"
    and "\<forall>name\<in>set gs. name \<in> set (names genes)
            \<and> (\<exists>g. self_gene_name_2_idx self name = Some g \<and> g < ng)"
  shows "\<exists>sink'. gene_loop self genes tes gs sink = Inr sink'"
  using assms(2,3,4,6)
proof (induction gs arbitrary: sink)
  case Nil
  then show ?case by simp
next
  case (Cons name gs)
  from Cons.prems(4) have "name \<in> set (map fst genes)" by (simp add: names_def)
  then obtain gd where gd: "get_gene genes name = Inr gd"
    by (cases "map_of genes name") (auto simp: get_gene_def map_of_eq_None_iff)
  from Cons.prems(4) obtain g where g: "self_gene_name_2_idx self name = Some g" "g < ng"
    by auto
  from eq obtain v where v: "intra gd tes = Inr v" "length v = length (starts tes)"
    using intra_same_length by blast
  from write2_ok[of "sink_intra sink" ng v g] Cons.prems(3) v(2) g(2)
  obtain di where di: "write2 (sink_intra sink) (intra_slice g) v = Inr di"
    "shape2 di = shape2 (sink_intra sink)"
    by auto
  let ?s1 = "sink\<lparr>sink_intra := di\<rparr>"
  have "shape3 (sink_left ?s1) = (ng, nw, length (starts tes))"
    "shape3 (sink_right ?s1) = (ng, nw, length (starts tes))"
    using Cons.prems by simp_all
  from window_loop_completes[OF eq this g(2) wins, of gd]
  obtain s2 where s2: "window_loop self gd tes g (self_windows self) ?s1 = Inr s2"
    "shape3 (sink_left s2) = shape3 (sink_left ?s1)"
    "shape3 (sink_right s2) = shape3 (sink_right ?s1)"
    "shape2 (sink_intra s2) = shape2 (sink_intra ?s1)"
    by blast
  have "shape3 (sink_left s2) = (ng, nw, length (starts tes))"
    "shape3 (sink_right s2) = (ng, nw, length (starts tes))"
    "shape2 (sink_intra s2) = (ng, length (starts tes))"
    "\<forall>name\<in>set gs. name \<in> set (names genes)
            \<and> (\<exists>g. self_gene_name_2_idx self name = Some g \<and> g < ng)"
    using s2(2,3,4) di(2) Cons.prems by simp_all
  from Cons.IH[OF this] obtain sink' where "gene_loop self genes tes gs s2 = Inr sink'"
    by blast
  with gd g(1) v(1) di(1) s2(1) show ?case by simp
qed

lemma calculate_completes:
  assumes eq: "length (starts tes) = length (stops tes)"
    and dir: "DEFAULT_OUTPUT_DIR \<in> fs"
    and ng: "32 \<le> length (filter (\<lambda>n. n \<in> set (names genes)) gnames)"
    and nw: "filter (\<lambda>w. 0 \<le> w) ws \<noteq> []"
    and nt: "starts tes \<noteq> []"
  shows "\<exists>self f. calculate fs genes tes ws gnames = Inr (self, f)"
proof -
  let ?self = "reset tes genes ws gnames"
  let ?ns = "filter (\<lambda>n. n \<in> set (names genes)) gnames"
  let ?ws = "filter (\<lambda>w. 0 \<le> w) ws"
  have wins: "\<forall>w\<in>set (self_windows ?self). \<exists>k. self_window_2_idx ?self w = Some k \<and> k < length ?ws"
  proof
    fix w assume "w \<in> set (self_windows ?self)"
    then have "w \<in> set ?ws" by (simp add: reset_fields)
    then obtain k where k: "map_windows_2_indices ?ws w = Some k"
      unfolding map_windows_2_indices_def using index_fold_member by fastforce
    then have "k < length ?ws"
      by (simp add: window_idx_last)
    with k show "\<exists>k. self_window_2_idx ?self w = Some k \<and> k < length ?ws"
      by (simp add: reset_fields)
  qed
  have gns: "\<forall>name\<in>set (self_gene_names ?self). name \<in> set (names genes)
            \<and> (\<exists>g. self_gene_name_2_idx ?self name = Some g \<and> g < length ?ns)"
  proof
    fix name assume "name \<in> set (self_gene_names ?self)"
    then have m: "name \<in> set ?ns" by (simp add: reset_fields)
    then obtain g where g: "map_gene_names_2_indices ?ns name = Some g"
      unfolding map_gene_names_2_indices_def using index_fold_member by fastforce
    then have "g < length ?ns"
      by (simp add: gene_idx_last)
    with m g show "name \<in> set (names genes)
            \<and> (\<exists>g. self_gene_name_2_idx ?self name = Some g \<and> g < length ?ns)"
      by (simp add: reset_fields)
  qed
  from dir ng nw nt obtain opened where o: "enter fs (self_data ?self) = Inr opened"
    by (simp add: enter_def Let_def reset_fields sink_init_def number_elements_def)
  note e = enter_Inr(1-3)[OF o]
  have "\<exists>sink'. gene_loop ?self genes tes (self_gene_names ?self) opened = Inr sink'"
    by (rule gene_loop_completes[OF eq _ _ _ wins gns])
      (simp_all add: e reset_fields sink_init_def number_elements_def)
  with o show ?thesis
    by (auto simp: calculate_def Let_def)
qed

section \<open>Properties of the orchestrator\<close>

lemma replicate_numeral_Cons: "replicate (numeral k) x = x # replicate (pred_numeral k) x"
  by (simp add: numeral_eq_Suc)

lemma completed_projections:
  assumes "\<exists>self f. c = Inr (self, f)"
  shows "c = Inr (fst (projr c), snd (projr c))" and "\<not> isl c"
  using assms by auto

text \<open>
  Claim C3, as stated: every window less than or equal to 0 is dropped, so that 0 never
  appears in the filtered window list. The filter tests \<open>window < 0\<close>: the window 0 is
  yielded, is not logged, and gets an index in the window map.
\<close>

theorem filter_windows_zero_counterexample:
  "filter_windows [0, -5, 100] = ([0, 100], [-5])
   \<and> self_windows (reset \<lparr>starts = [180], stops = [220], lengths = [41]\<rparr>
        [(''a'', \<lparr>start = 100, stop = 200\<rparr>)] [0, -5, 100] [''a'']) = [0, 100]
   \<and> self_window_2_idx (reset \<lparr>starts = [180], stops = [220], lengths = [41]\<rparr>
        [(''a'', \<lparr>start = 100, stop = 200\<rparr>)] [0, -5, 100] [''a'']) 0 = Some 0"
  by (simp add: reset_def Let_def names_def map_windows_2_indices_def)

text \<open>
  Claim C3, amended: for every requested window list, every window less than 0 is
  dropped (logged, and excluded from the filtered window list and from the window index
  map), and the run continues with the remaining windows, those greater than or equal to
  0, in their requested order.
\<close>

theorem filter_windows_negative:
  "filter_windows ws = (filter (\<lambda>w. 0 \<le> w) ws, filter (\<lambda>w. w < 0) ws)
   \<and> self_windows (reset tes genes ws gnames) = filter (\<lambda>w. 0 \<le> w) ws
   \<and> dom (self_window_2_idx (reset tes genes ws gnames)) = {w \<in> set ws. 0 \<le> w}"
  by (simp add: filter_windows_eq reset_fields map_windows_2_indices_def index_fold_dom)

text \<open>
  Claim C5, as stated: the dimensions are the deduplicated counts, so that a name or a
  window requested more than once does not enlarge them. For the name \<open>a\<close> requested
  32 times and the windows \<open>50, 50\<close> the calculation completes and the store has 32
  gene rows and two window rows, where the deduplicated counts are one and one.
\<close>

theorem store_shapes_counterexample:
  "\<not> isl (calculate {DEFAULT_OUTPUT_DIR} [(''a'', \<lparr>start = 100, stop = 200\<rparr>)]
       \<lparr>starts = [180], stops = [220], lengths = [41]\<rparr> [50, 50] (replicate 32 ''a''))
   \<and> shape3 (sink_left (snd (projr (calculate {DEFAULT_OUTPUT_DIR}
       [(''a'', \<lparr>start = 100, stop = 200\<rparr>)]
       \<lparr>starts = [180], stops = [220], lengths = [41]\<rparr> [50, 50] (replicate 32 ''a'')))))
     = (32, 2, 1)
   \<and> shape2 (sink_intra (snd (projr (calculate {DEFAULT_OUTPUT_DIR}
       [(''a'', \<lparr>start = 100, stop = 200\<rparr>)]
       \<lparr>starts = [180], stops = [220], lengths = [41]\<rparr> [50, 50] (replicate 32 ''a'')))))
     = (32, 1)
   \<and> length (remdups (replicate 32 ''a'')) = 1 \<and> length (remdups [50, 50 :: int]) = 1"
proof -
  let ?G = "[(''a'', \<lparr>start = 100, stop = 200\<rparr>)]"
  let ?T = "\<lparr>starts = [180], stops = [220], lengths = [41]\<rparr>"
  let ?c = "calculate {DEFAULT_OUTPUT_DIR} ?G ?T [50, 50] (replicate 32 ''a'')"
  have "\<exists>self f. ?c = Inr (self, f)"
    by (rule calculate_completes) (simp_all add: names_def)
  note p = completed_projections[OF this]
  note inv = calculate_invariant[OF p(1)]
  have s: "fst (projr ?c) = reset ?T ?G [50, 50] (replicate 32 ''a'')"
    using calculate_Inr(1)[OF p(1)] .
  have "shape3 (sink_left (snd (projr ?c))) = (32, 2, 1)"
    "shape2 (sink_intra (snd (projr ?c))) = (32, 1)"
    using inv(2,4) unfolding s by (simp_all add: reset_fields names_def number_elements_def)
  moreover have "length (remdups (replicate 32 ''a'')) = 1"
    by (simp add: replicate_numeral_Cons)
  ultimately show ?thesis using p(2) by simp
qed

text \<open>
  Claim C5, amended: the three datasets allocated in the store have the shapes
  \<open>(n_genes, n_windows, n_tes)\<close> for left and right and \<open>(n_genes, n_tes)\<close> for intra,
  where \<open>n_genes\<close> and \<open>n_windows\<close> are the lengths of the filtered lists, every
  repeated valid name or window counted once per occurrence, and \<open>n_tes\<close> is the
  collection's number of elements; a completed \<open>calculate\<close> leaves these shapes.
\<close>

theorem store_shapes:
  "(enter fs (self_data (reset tes genes ws gnames)) = Inr opened \<longrightarrow>
        shape3 (sink_left opened)
          = (length (filter (\<lambda>n. n \<in> set (names genes)) gnames),
             length (filter (\<lambda>w. 0 \<le> w) ws), number_elements tes)
      \<and> shape3 (sink_right opened)
          = (length (filter (\<lambda>n. n \<in> set (names genes)) gnames),
             length (filter (\<lambda>w. 0 \<le> w) ws), number_elements tes)
      \<and> shape2 (sink_intra opened)
          = (length (filter (\<lambda>n. n \<in> set (names genes)) gnames), number_elements tes))
   \<and> (calculate fs genes tes ws gnames = Inr (self, f) \<longrightarrow>
        self_gene_names self = filter (\<lambda>n. n \<in> set (names genes)) gnames
      \<and> self_windows self = filter (\<lambda>w. 0 \<le> w) ws
      \<and> shape3 (sink_left f)
          = (length (self_gene_names self), length (self_windows self), number_elements tes)
      \<and> shape3 (sink_right f)
          = (length (self_gene_names self), length (self_windows self), number_elements tes)
      \<and> shape2 (sink_intra f) = (length (self_gene_names self), number_elements tes))"
proof (intro conjI impI)
  assume o: "enter fs (self_data (reset tes genes ws gnames)) = Inr opened"
  from enter_Inr(1-3)[OF o]
  show "shape3 (sink_left opened)
          = (length (filter (\<lambda>n. n \<in> set (names genes)) gnames),
             length (filter (\<lambda>w. 0 \<le> w) ws), number_elements tes)"
    "shape3 (sink_right opened)
          = (length (filter (\<lambda>n. n \<in> set (names genes)) gnames),
             length (filter (\<lambda>w. 0 \<le> w) ws), number_elements tes)"
    "shape2 (sink_intra opened)
          = (length (filter (\<lambda>n. n \<in> set (names genes)) gnames), number_elements tes)"
    by (simp_all add: reset_fields sink_init_def)
next
  assume c: "calculate fs genes tes ws gnames = Inr (self, f)"
  note s = calculate_Inr(1)[OF c]
  show "self_gene_names self = filter (\<lambda>n. n \<in> set (names genes)) gnames"
    "self_windows self = filter (\<lambda>w. 0 \<le> w) ws"
    unfolding s by (simp_all add: reset_fields)
  from calculate_invariant(2-4)[OF c]
  show "shape3 (sink_left f)
          = (length (self_gene_names self), length (self_windows self), number_elements tes)"
    "shape3 (sink_right f)
          = (length (self_gene_names self), length (self_windows self), number_elements tes)"
    "shape2 (sink_intra f) = (length (self_gene_names self), number_elements tes)"
    by simp_all
qed

theorem store_shapes_witness:
  "\<not> isl (calculate {DEFAULT_OUTPUT_DIR}
       [(''a'', \<lparr>start = 100, stop = 200\<rparr>), (''b'', \<lparr>start = 50, stop = 60\<rparr>)]
       \<lparr>starts = [180, 0], stops = [220, 70], lengths = [41, 71]\<rparr>
       [50, -1, 100] (''a'' # ''zz'' # replicate 30 ''b'' @ [''a'']))
   \<and> shape3 (sink_left (snd (projr (calculate {DEFAULT_OUTPUT_DIR}
       [(''a'', \<lparr>start = 100, stop = 200\<rparr>), (''b'', \<lparr>start = 50, stop = 60\<rparr>)]
       \<lparr>starts = [180, 0], stops = [220, 70], lengths = [41, 71]\<rparr>
       [50, -1, 100] (''a'' # ''zz'' # replicate 30 ''b'' @ [''a'']))))) = (32, 2, 2)
   \<and> shape2 (sink_intra (snd (projr (calculate {DEFAULT_OUTPUT_DIR}
       [(''a'', \<lparr>start = 100, stop = 200\<rparr>), (''b'', \<lparr>start = 50, stop = 60\<rparr>)]
       \<lparr>starts = [180, 0], stops = [220, 70], lengths = [41, 71]\<rparr>
       [50, -1, 100] (''a'' # ''zz'' # replicate 30 ''b'' @ [''a'']))))) = (32, 2)"
proof -
  let ?G = "[(''a'', \<lparr>start = 100, stop = 200\<rparr>), (''b'', \<lparr>start = 50, stop = 60\<rparr>)]"
  let ?T = "\<lparr>starts = [180, 0], stops = [220, 70], lengths = [41, 71]\<rparr>"
  let ?N = "''a'' # ''zz'' # replicate 30 ''b'' @ [''a'']"
  let ?c = "calculate {DEFAULT_OUTPUT_DIR} ?G ?T [50, -1, 100] ?N"
  have "\<exists>self f. ?c = Inr (self, f)"
    by (rule calculate_completes) (simp_all add: names_def)
  note p = completed_projections[OF this]
  from store_shapes[of "{DEFAULT_OUTPUT_DIR}" ?T ?G "[50, -1, 100]" ?N _ "fst (projr ?c)" "snd (projr ?c)"] p(1)
  have "self_gene_names (fst (projr ?c)) = filter (\<lambda>n. n \<in> set (names ?G)) ?N"
    "self_windows (fst (projr ?c)) = filter (\<lambda>w. 0 \<le> w) [50, -1, 100]"
    "shape3 (sink_left (snd (projr ?c)))
       = (length (self_gene_names (fst (projr ?c))), length (self_windows (fst (projr ?c))),
          number_elements ?T)"
    "shape2 (sink_intra (snd (projr ?c)))
       = (length (self_gene_names (fst (projr ?c))), number_elements ?T)"
    by blast+
  then show ?thesis
    using p(2) by (simp add: names_def number_elements_def)
qed

text \<open>
  Claim C6, as stated: the stored slice equals the fresh computation of the kernel. For
  the gene \<open>[16777218, 16777300]\<close>, the window 16777217 and the TE \<open>[1, 16777217]\<close> the
  left kernel returns 16777217, and the row stored at the gene's and the window's indices
  holds 16777216, the nearest 32-bit float.
\<close>

theorem index_consistency_counterexample:
  "\<not> isl (calculate {DEFAULT_OUTPUT_DIR} [(''a'', \<lparr>start = 16777218, stop = 16777300\<rparr>)]
       \<lparr>starts = [1], stops = [16777217], lengths = [16777217]\<rparr> [16777217] (replicate 32 ''a''))
   \<and> self_gene_name_2_idx (fst (projr (calculate {DEFAULT_OUTPUT_DIR}
       [(''a'', \<lparr>start = 16777218, stop = 16777300\<rparr>)]
       \<lparr>starts = [1], stops = [16777217], lengths = [16777217]\<rparr> [16777217]
       (replicate 32 ''a'')))) ''a'' = Some 31
   \<and> self_window_2_idx (fst (projr (calculate {DEFAULT_OUTPUT_DIR}
       [(''a'', \<lparr>start = 16777218, stop = 16777300\<rparr>)]
       \<lparr>starts = [1], stops = [16777217], lengths = [16777217]\<rparr> [16777217]
       (replicate 32 ''a'')))) 16777217 = Some 0
   \<and> rows3 (sink_left (snd (projr (calculate {DEFAULT_OUTPUT_DIR}
       [(''a'', \<lparr>start = 16777218, stop = 16777300\<rparr>)]
       \<lparr>starts = [1], stops = [16777217], lengths = [16777217]\<rparr> [16777217]
       (replicate 32 ''a''))))) (31, 0) = Some [16777216]
   \<and> left \<lparr>start = 16777218, stop = 16777300\<rparr>
       \<lparr>starts = [1], stops = [16777217], lengths = [16777217]\<rparr> 16777217 = Inr [16777217]"
proof -
  let ?g = "\<lparr>start = 16777218, stop = 16777300\<rparr>"
  let ?G = "[(''a'', ?g)]"
  let ?T = "\<lparr>starts = [1], stops = [16777217], lengths = [16777217]\<rparr>"
  let ?c = "calculate {DEFAULT_OUTPUT_DIR} ?G ?T [16777217] (replicate 32 ''a'')"
  have "\<exists>self f. ?c = Inr (self, f)"
    by (rule calculate_completes) (simp_all add: names_def)
  note p = completed_projections[OF this]
  have s: "fst (projr ?c) = reset ?T ?G [16777217] (replicate 32 ''a'')"
    using calculate_Inr(1)[OF p(1)] .
  have gi: "self_gene_name_2_idx (fst (projr ?c)) ''a'' = Some 31"
    unfolding s
    by (simp add: reset_fields names_def map_gene_names_2_indices_def replicate_numeral_Cons)
  have wi: "self_window_2_idx (fst (projr ?c)) 16777217 = Some 0"
    unfolding s by (simp add: reset_fields map_windows_2_indices_def)
  have g: "''a'' \<in> set (self_gene_names (fst (projr ?c)))"
    unfolding s by (simp add: reset_fields names_def)
  have w: "16777217 \<in> set (self_windows (fst (projr ?c)))"
    unfolding s by (simp add: reset_fields)
  have l: "left ?g ?T 16777217 = Inr [16777217]"
    by (simp add: kernel_eval_defs)
  from stored_rows[OF p(1) g] gi obtain gd where gd: "get_gene ?G ''a'' = Inr gd"
    and ws: "\<forall>w\<in>set (self_windows (fst (projr ?c))). \<exists>w_idx vl vr.
               self_window_2_idx (fst (projr ?c)) w = Some w_idx
             \<and> left gd ?T w = Inr vl
             \<and> rows3 (sink_left (snd (projr ?c))) (31, w_idx) = Some (map to_float32 vl)
             \<and> right gd ?T w = Inr vr
             \<and> rows3 (sink_right (snd (projr ?c))) (31, w_idx) = Some (map to_float32 vr)"
    by auto
  from gd have "gd = ?g" by (simp add: get_gene_def)
  with ws w wi l have "rows3 (sink_left (snd (projr ?c))) (31, 0) = Some (map to_float32 [16777217])"
    by fastforce
  then have "rows3 (sink_left (snd (projr ?c))) (31, 0) = Some [16777216]"
    by (simp add: to_float32_def float32_exponent_def Let_def)
  with p(2) gi wi l show ?thesis by simp
qed

text \<open>
  Claim C6, amended: after a completed \<open>calculate\<close>, for every filtered gene name \<open>g\<close>
  the row of \<open>intra\<close> at the gene index of \<open>g\<close> is the intra kernel's vector for that
  gene and the TE collection, converted element by element to the store's 32-bit float,
  and for every filtered window \<open>w\<close> the rows of \<open>left\<close> and \<open>right\<close> at the gene
  index of \<open>g\<close> and the window index of \<open>w\<close> are the converted vectors of the left and
  right kernels for that gene, the TE collection and \<open>w\<close>. The conversion changes no
  value up to \<open>2 ^ 24\<close>.
\<close>

theorem index_consistency:
  assumes "calculate fs genes tes ws gnames = Inr (self, f)"
    and "g \<in> set (self_gene_names self)"
  shows "(\<exists>g_idx gd vi.
           self_gene_name_2_idx self g = Some g_idx \<and> get_gene genes g = Inr gd
         \<and> intra gd tes = Inr vi \<and> rows2 (sink_intra f) g_idx = Some (map to_float32 vi)
         \<and> (\<forall>w\<in>set (self_windows self). \<exists>w_idx vl vr.
               self_window_2_idx self w = Some w_idx
             \<and> left gd tes w = Inr vl
             \<and> rows3 (sink_left f) (g_idx, w_idx) = Some (map to_float32 vl)
             \<and> right gd tes w = Inr vr
             \<and> rows3 (sink_right f) (g_idx, w_idx) = Some (map to_float32 vr)))
       \<and> (\<forall>x. uint x \<le> 2 ^ 24 \<longrightarrow> to_float32 x = uint x)"
  using stored_rows[OF assms] to_float32_exact by blast

theorem index_consistency_witness:
  "\<not> isl (calculate {DEFAULT_OUTPUT_DIR}
       [(''a'', \<lparr>start = 100, stop = 200\<rparr>), (''b'', \<lparr>start = 50, stop = 60\<rparr>)]
       \<lparr>starts = [180, 60], stops = [220, 80], lengths = [41, 21]\<rparr>
       [50, -1, 100] (''a'' # ''zz'' # replicate 31 ''b''))
   \<and> rows2 (sink_intra (snd (projr (calculate {DEFAULT_OUTPUT_DIR}
       [(''a'', \<lparr>start = 100, stop = 200\<rparr>), (''b'', \<lparr>start = 50, stop = 60\<rparr>)]
       \<lparr>starts = [180, 60], stops = [220, 80], lengths = [41, 21]\<rparr>
       [50, -1, 100] (''a'' # ''zz'' # replicate 31 ''b''))))) 0
     = Some [4294967296, 4294967296]
   \<and> rows3 (sink_left (snd (projr (calculate {DEFAULT_OUTPUT_DIR}
       [(''a'', \<lparr>start = 100, stop = 200\<rparr>), (''b'', \<lparr>start = 50, stop = 60\<rparr>)]
       \<lparr>starts = [180, 60], stops = [220, 80], lengths = [41, 21]\<rparr>
       [50, -1, 100] (''a'' # ''zz'' # replicate 31 ''b''))))) (0, 0)
     = Some [4294967296, 21]
   \<and> rows3 (sink_right (snd (projr (calculate {DEFAULT_OUTPUT_DIR}
       [(''a'', \<lparr>start = 100, stop = 200\<rparr>), (''b'', \<lparr>start = 50, stop = 60\<rparr>)]
       \<lparr>starts = [180, 60], stops = [220, 80], lengths = [41, 21]\<rparr>
       [50, -1, 100] (''a'' # ''zz'' # replicate 31 ''b''))))) (0, 0)
     = Some [20, 4294967296]
   \<and> to_float32 21 = 21"
proof -
  let ?g = "\<lparr>start = 100, stop = 200\<rparr>"
  let ?G = "[(''a'', ?g), (''b'', \<lparr>start = 50, stop = 60\<rparr>)]"
  let ?T = "\<lparr>starts = [180, 60], stops = [220, 80], lengths = [41, 21]\<rparr>"
  let ?N = "''a'' # ''zz'' # replicate 31 ''b''"
  let ?c = "calculate {DEFAULT_OUTPUT_DIR} ?G ?T [50, -1, 100] ?N"
  have "\<exists>self f. ?c = Inr (self, f)"
    by (rule calculate_completes) (simp_all add: names_def)
  note p = completed_projections[OF this]
  have s: "fst (projr ?c) = reset ?T ?G [50, -1, 100] ?N"
    using calculate_Inr(1)[OF p(1)] .
  have gi: "self_gene_name_2_idx (fst (projr ?c)) ''a'' = Some 0"
    unfolding s
    by (simp add: reset_fields names_def map_gene_names_2_indices_def replicate_numeral_Cons)
  have wi: "self_window_2_idx (fst (projr ?c)) 50 = Some 0"
    unfolding s by (simp add: reset_fields map_windows_2_indices_def)
  have g: "''a'' \<in> set (self_gene_names (fst (projr ?c)))"
    unfolding s by (simp add: reset_fields names_def)
  have w: "50 \<in> set (self_windows (fst (projr ?c)))"
    unfolding s by (simp add: reset_fields)
  note ic = index_consistency[OF p(1) g]
  from ic gi obtain gd vi where gd: "get_gene ?G ''a'' = Inr gd"
    and vi: "intra gd ?T = Inr vi" "rows2 (sink_intra (snd (projr ?c))) 0 = Some (map to_float32 vi)"
    and ws: "\<forall>w\<in>set (self_windows (fst (projr ?c))). \<exists>w_idx vl vr.
               self_window_2_idx (fst (projr ?c)) w = Some w_idx
             \<and> left gd ?T w = Inr vl
             \<and> rows3 (sink_left (snd (projr ?c))) (0, w_idx) = Some (map to_float32 vl)
             \<and> right gd ?T w = Inr vr
             \<and> rows3 (sink_right (snd (projr ?c))) (0, w_idx) = Some (map to_float32 vr)"
    by auto
  from ws w wi obtain vl vr where
    q: "left gd ?T 50 = Inr vl" "rows3 (sink_left (snd (projr ?c))) (0, 0) = Some (map to_float32 vl)"
      "right gd ?T 50 = Inr vr" "rows3 (sink_right (snd (projr ?c))) (0, 0) = Some (map to_float32 vr)"
    by fastforce
  from gd have "gd = ?g" by (simp add: get_gene_def)
  moreover have "intra ?g ?T = Inr [4294967197, 4294967177]"
    "left ?g ?T 50 = Inr [4294967216, 21]" "right ?g ?T 50 = Inr [20, 4294967176]"
    by (simp_all add: kernel_eval_defs)
  ultimately have "rows2 (sink_intra (snd (projr ?c))) 0 = Some (map to_float32 [4294967197, 4294967177])"
    "rows3 (sink_left (snd (projr ?c))) (0, 0) = Some (map to_float32 [4294967216, 21])"
    "rows3 (sink_right (snd (projr ?c))) (0, 0) = Some (map to_float32 [20, 4294967176])"
    using vi q by simp_all
  moreover from ic have "to_float32 21 = 21" by simp
  ultimately show ?thesis
    using p(2) by (simp add: to_float32_def float32_exponent_def Let_def)
qed

lemma reset_filtered:
  "reset tes genes (filter (\<lambda>w. 0 \<le> w) ws) (filter (\<lambda>n. n \<in> set (names genes)) gnames)
     = reset tes genes ws gnames"
  by (simp add: reset_def Let_def filter_gene_names_eq filter_windows_eq)

text \<open>
  Claim C9, as stated: adding windows that are not positive to a valid request changes
  nothing. Adding the window 0 to the request \<open>[100]\<close> for 32 gene names gives two
  windows and datasets with two window rows, where the request alone gives one; both
  calculations complete.
\<close>

theorem filtering_idempotence_counterexample:
  "\<not> isl (calculate {DEFAULT_OUTPUT_DIR} [(''a'', \<lparr>start = 100, stop = 200\<rparr>)]
       \<lparr>starts = [180], stops = [220], lengths = [41]\<rparr> [0, 100] (replicate 32 ''a''))
   \<and> \<not> isl (calculate {DEFAULT_OUTPUT_DIR} [(''a'', \<lparr>start = 100, stop = 200\<rparr>)]
       \<lparr>starts = [180], stops = [220], lengths = [41]\<rparr> [100] (replicate 32 ''a''))
   \<and> self_windows (fst (projr (calculate {DEFAULT_OUTPUT_DIR} [(''a'', \<lparr>start = 100, stop = 200\<rparr>)]
       \<lparr>starts = [180], stops = [220], lengths = [41]\<rparr> [0, 100] (replicate 32 ''a''))))
     = [0, 100]
   \<and> self_windows (fst (projr (calculate {DEFAULT_OUTPUT_DIR} [(''a'', \<lparr>start = 100, stop = 200\<rparr>)]
       \<lparr>starts = [180], stops = [220], lengths = [41]\<rparr> [100] (replicate 32 ''a''))))
     = [100]
   \<and> shape3 (sink_left (snd (projr (calculate {DEFAULT_OUTPUT_DIR} [(''a'', \<lparr>start = 100, stop = 200\<rparr>)]
       \<lparr>starts = [180], stops = [220], lengths = [41]\<rparr> [0, 100] (replicate 32 ''a'')))))
     = (32, 2, 1)
   \<and> shape3 (sink_left (snd (projr (calculate {DEFAULT_OUTPUT_DIR} [(''a'', \<lparr>start = 100, stop = 200\<rparr>)]
       \<lparr>starts = [180], stops = [220], lengths = [41]\<rparr> [100] (replicate 32 ''a'')))))
     = (32, 1, 1)"
proof -
  let ?G = "[(''a'', \<lparr>start = 100, stop = 200\<rparr>)]"
  let ?T = "\<lparr>starts = [180], stops = [220], lengths = [41]\<rparr>"
  let ?c = "calculate {DEFAULT_OUTPUT_DIR} ?G ?T [0, 100] (replicate 32 ''a'')"
  let ?d = "calculate {DEFAULT_OUTPUT_DIR} ?G ?T [100] (replicate 32 ''a'')"
  have "\<exists>self f. ?c = Inr (self, f)"
    by (rule calculate_completes) (simp_all add: names_def)
  note p = completed_projections[OF this]
  have "\<exists>self f. ?d = Inr (self, f)"
    by (rule calculate_completes) (simp_all add: names_def)
  note q = completed_projections[OF this]
  have sc: "fst (projr ?c) = reset ?T ?G [0, 100] (replicate 32 ''a'')"
    using calculate_Inr(1)[OF p(1)] .
  have sd: "fst (projr ?d) = reset ?T ?G [100] (replicate 32 ''a'')"
    using calculate_Inr(1)[OF q(1)] .
  have "self_windows (fst (projr ?c)) = [0, 100]" "self_windows (fst (projr ?d)) = [100]"
    unfolding sc sd by (simp_all add: reset_fields)
  moreover have "shape3 (sink_left (snd (projr ?c))) = (32, 2, 1)"
    using calculate_invariant(2)[OF p(1)] unfolding sc
    by (simp add: reset_fields names_def number_elements_def)
  moreover have "shape3 (sink_left (snd (projr ?d))) = (32, 1, 1)"
    using calculate_invariant(2)[OF q(1)] unfolding sd
    by (simp add: reset_fields names_def number_elements_def)
  ultimately show ?thesis using p(2) q(2) by simp
qed

text \<open>
  Claim C9, amended: for every request and every superset of it obtained by adding names
  absent from the gene collection and windows less than 0, \<open>calculate\<close> on the superset
  gives the same result, index maps and datasets, as on the request alone.
\<close>

theorem filtering_idempotence:
  assumes "filter (\<lambda>n. n \<in> set (names genes)) requested_names = valid_names"
    and "filter (\<lambda>w. 0 \<le> w) requested_windows = valid_windows"
  shows "calculate fs genes tes requested_windows requested_names
           = calculate fs genes tes valid_windows valid_names"
proof -
  have "reset tes genes valid_windows valid_names = reset tes genes requested_windows requested_names"
    unfolding assms[symmetric] by (rule reset_filtered)
  then show ?thesis
    by (simp add: calculate_def)
qed

theorem filtering_idempotence_witness:
  "calculate {DEFAULT_OUTPUT_DIR}
       [(''a'', \<lparr>start = 100, stop = 200\<rparr>), (''b'', \<lparr>start = 50, stop = 60\<rparr>)]
       \<lparr>starts = [180, 60], stops = [220, 80], lengths = [41, 21]\<rparr>
       [50, -1, 100, -7] (''zz'' # ''a'' # ''yy'' # replicate 31 ''b'')
   = calculate {DEFAULT_OUTPUT_DIR}
       [(''a'', \<lparr>start = 100, stop = 200\<rparr>), (''b'', \<lparr>start = 50, stop = 60\<rparr>)]
       \<lparr>starts = [180, 60], stops = [220, 80], lengths = [41, 21]\<rparr>
       [50, 100] (''a'' # replicate 31 ''b'')
   \<and> \<not> isl (calculate {DEFAULT_OUTPUT_DIR}
       [(''a'', \<lparr>start = 100, stop = 200\<rparr>), (''b'', \<lparr>start = 50, stop = 60\<rparr>)]
       \<lparr>starts = [180, 60], stops = [220, 80], lengths = [41, 21]\<rparr>
       [50, 100] (''a'' # replicate 31 ''b''))"
proof
  show "calculate {DEFAULT_OUTPUT_DIR}
       [(''a'', \<lparr>start = 100, stop = 200\<rparr>), (''b'', \<lparr>start = 50, stop = 60\<rparr>)]
       \<lparr>starts = [180, 60], stops = [220, 80], lengths = [41, 21]\<rparr>
       [50, -1, 100, -7] (''zz'' # ''a'' # ''yy'' # replicate 31 ''b'')
   = calculate {DEFAULT_OUTPUT_DIR}
       [(''a'', \<lparr>start = 100, stop = 200\<rparr>), (''b'', \<lparr>start = 50, stop = 60\<rparr>)]
       \<lparr>starts = [180, 60], stops = [220, 80], lengths = [41, 21]\<rparr>
       [50, 100] (''a'' # replicate 31 ''b'')"
    by (rule filtering_idempotence) (simp_all add: names_def)
  have "\<exists>self f. calculate {DEFAULT_OUTPUT_DIR}
       [(''a'', \<lparr>start = 100, stop = 200\<rparr>), (''b'', \<lparr>start = 50, stop = 60\<rparr>)]
       \<lparr>starts = [180, 60], stops = [220, 80], lengths = [41, 21]\<rparr>
       [50, 100] (''a'' # replicate 31 ''b'') = Inr (self, f)"
    by (rule calculate_completes) (simp_all add: names_def)
  then show "\<not> isl (calculate {DEFAULT_OUTPUT_DIR}
       [(''a'', \<lparr>start = 100, stop = 200\<rparr>), (''b'', \<lparr>start = 50, stop = 60\<rparr>)]
       \<lparr>starts = [180, 60], stops = [220, 80], lengths = [41, 21]\<rparr>
       [50, 100] (''a'' # replicate 31 ''b''))"
    by auto
qed

text \<open>
  Claim C10. When a valid name occurs in the filtered list at an index \<open>i\<close> and again
  at a later index, after a completed \<open>calculate\<close> the gene index map binds the name to
  the index \<open>l\<close> of its last occurrence, the rows at \<open>l\<close> hold that gene's intra, left
  and right vectors (as the store's floats) for every filtered window, and the rows of
  all three datasets at the earlier index \<open>i\<close> were never written.
\<close>

theorem duplicate_gene_name_rows:
  assumes c: "calculate fs genes tes ws gnames = Inr (self, f)"
    and ij: "i < j" "j < length (self_gene_names self)"
    and same: "self_gene_names self ! i = self_gene_names self ! j"
  shows "\<exists>l gd vi.
           self_gene_name_2_idx self (self_gene_names self ! i) = Some l
         \<and> i < l \<and> l < length (self_gene_names self)
         \<and> self_gene_names self ! l = self_gene_names self ! i
         \<and> (\<forall>m. l < m \<and> m < length (self_gene_names self)
                \<longrightarrow> self_gene_names self ! m \<noteq> self_gene_names self ! i)
         \<and> get_gene genes (self_gene_names self ! i) = Inr gd
         \<and> intra gd tes = Inr vi \<and> rows2 (sink_intra f) l = Some (map to_float32 vi)
         \<and> (\<forall>w\<in>set (self_windows self). \<exists>w_idx vl vr.
               self_window_2_idx self w = Some w_idx
             \<and> left gd tes w = Inr vl
             \<and> rows3 (sink_left f) (l, w_idx) = Some (map to_float32 vl)
             \<and> right gd tes w = Inr vr
             \<and> rows3 (sink_right f) (l, w_idx) = Some (map to_float32 vr))
         \<and> rows2 (sink_intra f) i = None
         \<and> (\<forall>k. rows3 (sink_left f) (i, k) = None \<and> rows3 (sink_right f) (i, k) = None)"
proof -
  let ?ns = "self_gene_names self"
  let ?g = "?ns ! i"
  from ij have mem: "?g \<in> set ?ns" by simp
  from stored_rows[OF c mem] obtain l gd vi where
    l: "self_gene_name_2_idx self ?g = Some l" and gd: "get_gene genes ?g = Inr gd"
    and vi: "intra gd tes = Inr vi" "rows2 (sink_intra f) l = Some (map to_float32 vi)"
    and wins: "\<forall>w\<in>set (self_windows self). \<exists>w_idx vl vr.
               self_window_2_idx self w = Some w_idx
             \<and> left gd tes w = Inr vl
             \<and> rows3 (sink_left f) (l, w_idx) = Some (map to_float32 vl)
             \<and> right gd tes w = Inr vr
             \<and> rows3 (sink_right f) (l, w_idx) = Some (map to_float32 vr)"
    by blast
  note u = gene_idx_unique[OF c l]
  have "j \<le> l"
  proof (rule ccontr)
    assume "\<not> j \<le> l"
    with ij(2) u have "?ns ! j \<noteq> ?g" by simp
    with same show False by simp
  qed
  with ij(1) have il: "i < l" by simp
  have "self_gene_name_2_idx self name \<noteq> Some i" for name
  proof
    assume "self_gene_name_2_idx self name = Some i"
    from gene_idx_unique[OF c this] ij same show False by auto
  qed
  then have "\<forall>name. self_gene_name_2_idx self name \<noteq> Some i" by blast
  from unmapped_rows[OF c this] l il u gd vi wins show ?thesis by blast
qed

theorem duplicate_gene_name_rows_witness:
  "\<not> isl (calculate {DEFAULT_OUTPUT_DIR}
       [(''a'', \<lparr>start = 100, stop = 200\<rparr>), (''b'', \<lparr>start = 50, stop = 60\<rparr>)]
       \<lparr>starts = [180, 60], stops = [220, 80], lengths = [41, 21]\<rparr>
       [50] (''a'' # replicate 30 ''b'' @ [''a'']))
   \<and> self_gene_name_2_idx (fst (projr (calculate {DEFAULT_OUTPUT_DIR}
       [(''a'', \<lparr>start = 100, stop = 200\<rparr>), (''b'', \<lparr>start = 50, stop = 60\<rparr>)]
       \<lparr>starts = [180, 60], stops = [220, 80], lengths = [41, 21]\<rparr>
       [50] (''a'' # replicate 30 ''b'' @ [''a''])))) ''a'' = Some 31
   \<and> rows2 (sink_intra (snd (projr (calculate {DEFAULT_OUTPUT_DIR}
       [(''a'', \<lparr>start = 100, stop = 200\<rparr>), (''b'', \<lparr>start = 50, stop = 60\<rparr>)]
       \<lparr>starts = [180, 60], stops = [220, 80], lengths = [41, 21]\<rparr>
       [50] (''a'' # replicate 30 ''b'' @ [''a'']))))) 0 = None
   \<and> rows3 (sink_left (snd (projr (calculate {DEFAULT_OUTPUT_DIR}
       [(''a'', \<lparr>start = 100, stop = 200\<rparr>), (''b'', \<lparr>start = 50, stop = 60\<rparr>)]
       \<lparr>starts = [180, 60], stops = [220, 80], lengths = [41, 21]\<rparr>
       [50] (''a'' # replicate 30 ''b'' @ [''a'']))))) (0, 0) = None
   \<and> rows3 (sink_right (snd (projr (calculate {DEFAULT_OUTPUT_DIR}
       [(''a'', \<lparr>start = 100, stop = 200\<rparr>), (''b'', \<lparr>start = 50, stop = 60\<rparr>)]
       \<lparr>starts = [180, 60], stops = [220, 80], lengths = [41, 21]\<rparr>
       [50] (''a'' # replicate 30 ''b'' @ [''a'']))))) (0, 0) = None
   \<and> rows3 (sink_left (snd (projr (calculate {DEFAULT_OUTPUT_DIR}
       [(''a'', \<lparr>start = 100, stop = 200\<rparr>), (''b'', \<lparr>start = 50, stop = 60\<rparr>)]
       \<lparr>starts = [180, 60], stops = [220, 80], lengths = [41, 21]\<rparr>
       [50] (''a'' # replicate 30 ''b'' @ [''a'']))))) (31, 0) = Some [4294967296, 21]"
proof -
  let ?g = "\<lparr>start = 100, stop = 200\<rparr>"
  let ?G = "[(''a'', ?g), (''b'', \<lparr>start = 50, stop = 60\<rparr>)]"
  let ?T = "\<lparr>starts = [180, 60], stops = [220, 80], lengths = [41, 21]\<rparr>"
  let ?N = "''a'' # replicate 30 ''b'' @ [''a'']"
  let ?c = "calculate {DEFAULT_OUTPUT_DIR} ?G ?T [50] ?N"
  have "\<exists>self f. ?c = Inr (self, f)"
    by (rule calculate_completes) (simp_all add: names_def)
  note p = completed_projections[OF this]
  have s: "fst (projr ?c) = reset ?T ?G [50] ?N"
    using calculate_Inr(1)[OF p(1)] .
  have n: "self_gene_names (fst (projr ?c)) = ?N"
    unfolding s by (simp add: reset_fields names_def)
  have gi: "self_gene_name_2_idx (fst (projr ?c)) ''a'' = Some 31"
    unfolding s
    by (simp add: reset_fields names_def map_gene_names_2_indices_def replicate_numeral_Cons)
  have wi: "self_window_2_idx (fst (projr ?c)) 50 = Some 0"
    unfolding s by (simp add: reset_fields map_windows_2_indices_def)
  have w: "50 \<in> set (self_windows (fst (projr ?c)))"
    unfolding s by (simp add: reset_fields)
  have h: "(0::nat) < 31" "31 < length (self_gene_names (fst (projr ?c)))"
    "self_gene_names (fst (projr ?c)) ! 0 = self_gene_names (fst (projr ?c)) ! 31"
    unfolding n by (simp_all add: replicate_numeral_Cons)
  have n0: "self_gene_names (fst (projr ?c)) ! 0 = ''a''"
    unfolding n by simp
  from duplicate_gene_name_rows[OF p(1) h] gi obtain gd where
    gd: "get_gene ?G ''a'' = Inr gd"
    and ws: "\<forall>w\<in>set (self_windows (fst (projr ?c))). \<exists>w_idx vl vr.
               self_window_2_idx (fst (projr ?c)) w = Some w_idx
             \<and> left gd ?T w = Inr vl
             \<and> rows3 (sink_left (snd (projr ?c))) (31, w_idx) = Some (map to_float32 vl)
             \<and> right gd ?T w = Inr vr
             \<and> rows3 (sink_right (snd (projr ?c))) (31, w_idx) = Some (map to_float32 vr)"
    and un: "rows2 (sink_intra (snd (projr ?c))) 0 = None"
      "rows3 (sink_left (snd (projr ?c))) (0, 0) = None"
      "rows3 (sink_right (snd (projr ?c))) (0, 0) = None"
    unfolding n0 by auto
  from gd have "gd = ?g" by (simp add: get_gene_def)
  moreover have "left ?g ?T 50 = Inr [4294967216, 21]"
    by (simp add: kernel_eval_defs)
  ultimately have "rows3 (sink_left (snd (projr ?c))) (31, 0) = Some (map to_float32 [4294967216, 21])"
    using ws w wi by fastforce
  then have "rows3 (sink_left (snd (projr ?c))) (31, 0) = Some [4294967296, 21]"
    by (simp add: to_float32_def float32_exponent_def Let_def)
  with p(2) gi un show ?thesis by simp
qed

end
